theory Spec2Isabelle
  imports Complex_Main "HOL-Library.Stream" "HOL-Library.Sublist"
begin

section \<open>Retail analytics: synthetic data generator, batch uploader and dashboard queries\<close>

text \<open>
  A shallow embedding of \<^verbatim>\<open>Data_Uploading.py\<close> and of the query functions of
  \<^verbatim>\<open>dashboard_retail.py\<close>.

  Conventions of the embedding:
  \<^item> Python's \<^verbatim>\<open>int\<close> is \<open>int\<close>; Python's \<^verbatim>\<open>float\<close> is idealised as \<open>real\<close>
    (exact arithmetic, no binary rounding error); \<^verbatim>\<open>round(x, k)\<close> rounds half to even
    at \<open>k\<close> decimals.
  \<^item> The module \<^verbatim>\<open>random\<close> is an explicit source of raw draws: a stream of naturals that
    every call consumes one element of, in the order in which the source makes the calls.
  \<^item> \<^verbatim>\<open>datetime.now()\<close> is day 0; a date is a number of days relative to it.
  \<^item> A raised exception is the \<open>Inl\<close> branch of a sum.
  \<^item> \<^verbatim>\<open>print\<close> is not modelled.
\<close>

subsection \<open>Exceptions\<close>

text \<open>
  \<^verbatim>\<open>BulkWriteError\<close> carries \<^verbatim>\<open>details.get('nInserted')\<close> (\<open>None\<close> when the details or the
  key are missing); \<^verbatim>\<open>PyMongoError\<close> carries \<^verbatim>\<open>str(e)\<close>. In pymongo the first is a
  subclass of the second.
\<close>

datatype py_exception =
    IndexError
  | ValueError
  | BulkWriteError "nat option"
  | PyMongoError string
  | OtherException string

subsection \<open>The random source\<close>

type_synonym rng = "nat stream"

text \<open>\<^verbatim>\<open>random.random()\<close>: a multiple of \<open>2 ^ -53\<close> in \<open>[0, 1)\<close>.\<close>

definition py_random :: "rng \<Rightarrow> real \<times> rng" where
  "py_random g = (real (shd g mod 2 ^ 53) / 2 ^ 53, stl g)"

text \<open>\<^verbatim>\<open>random.uniform(a, b)\<close> is \<^verbatim>\<open>a + (b - a) * random()\<close>.\<close>

definition uniform :: "real \<Rightarrow> real \<Rightarrow> rng \<Rightarrow> real \<times> rng" where
  "uniform a b g = (case py_random g of (u, g') \<Rightarrow> (a + (b - a) * u, g'))"

text \<open>
  \<^verbatim>\<open>random.randint(a, b)\<close>: an integer of \<open>[a, b]\<close>. Every call of the source has literal
  bounds with \<open>a \<le> b\<close>, so the \<^verbatim>\<open>ValueError\<close> of an empty range is not a branch here.
\<close>

definition randint :: "int \<Rightarrow> int \<Rightarrow> rng \<Rightarrow> int \<times> rng" where
  "randint a b g = (a + int (shd g mod nat (b - a + 1)), stl g)"

text \<open>\<^verbatim>\<open>random.choice(seq)\<close> raises \<^verbatim>\<open>IndexError\<close> on an empty sequence.\<close>

definition choice :: "'a list \<Rightarrow> rng \<Rightarrow> py_exception + ('a \<times> rng)" where
  "choice xs g = (if xs = [] then Inl IndexError else Inr (xs ! (shd g mod length xs), stl g))"

subsection \<open>Rounding and formatting\<close>

definition round_half_even :: "real \<Rightarrow> int" where
  "round_half_even x =
     (let f = \<lfloor>x\<rfloor>; d = x - of_int f
      in if d < 1 / 2 then f else if 1 / 2 < d then f + 1 else if even f then f else f + 1)"

text \<open>\<^verbatim>\<open>round(x, ndigits)\<close>.\<close>

definition py_round :: "real \<Rightarrow> nat \<Rightarrow> real" where
  "py_round x ndigits = of_int (round_half_even (x * 10 ^ ndigits)) / 10 ^ ndigits"

definition digit_char :: "nat \<Rightarrow> char" where
  "digit_char d = ''0123456789'' ! d"

fun digits10 :: "nat \<Rightarrow> string" where
  "digits10 n = (if n < 10 then [digit_char n] else digits10 (n div 10) @ [digit_char (n mod 10)])"

declare digits10.simps [simp del]

text \<open>\<^verbatim>\<open>str(i)\<close> and \<^verbatim>\<open>f'{i}'\<close>.\<close>

definition py_str :: "int \<Rightarrow> string" where
  "py_str i = (if i < 0 then CHR ''-'' # digits10 (nat (- i)) else digits10 (nat i))"

definition zfill :: "nat \<Rightarrow> string \<Rightarrow> string" where
  "zfill w s = replicate (w - length s) CHR ''0'' @ s"

text \<open>
  \<^verbatim>\<open>f'{i:0wd}'\<close>: the sign first, then zeros up to an overall width of at least \<open>w\<close>. The
  width is a minimum: a number with more than \<open>w\<close> digits is printed in full.
\<close>

definition format_0d :: "nat \<Rightarrow> int \<Rightarrow> string" where
  "format_0d w i =
     (if i < 0 then CHR ''-'' # zfill (w - 1) (digits10 (nat (- i))) else zfill w (digits10 (nat i)))"

subsection \<open>Data model\<close>

type_synonym date = int

record product =
  id_field :: string
  product_id :: string
  name :: string
  category :: string
  brand :: string
  price :: real
  cost :: real
  stock_quantity :: int
  rating :: real
  num_reviews :: int
  created_date :: date

record customer =
  id_field :: string
  customer_id :: string
  name :: string
  email :: string
  city :: string
  state :: string
  join_date :: date
  loyalty_tier :: string
  total_spent :: int
  order_count :: int

record order_item =
  product_id :: string
  product_name :: string
  category :: string
  quantity :: int
  unit_price :: real
  item_total :: real

record order =
  order_id :: string
  id_field :: string
  customer_id :: string
  customer_name :: string
  customer_city :: string
  customer_state :: string
  order_date :: date
  items :: "order_item list"
  total_amount :: real
  shipping_cost :: real
  tax :: real
  status :: string
  payment_method :: string

record review =
  review_id :: string
  id_field :: string
  order_id :: string
  product_id :: string
  product_name :: string
  customer_id :: string
  customer_name :: string
  rating :: int
  review_text :: string
  review_date :: date
  helpful_votes :: int

subsection \<open>\<^verbatim>\<open>generate_products\<close>\<close>

definition categories :: "string list" where
  "categories = [''Electronics'', ''Clothing'', ''Home & Garden'', ''Sports'', ''Books'', ''Toys'',
     ''Beauty'', ''Food'']"

definition brands :: "string list" where
  "brands = [''BrandA'', ''BrandB'', ''BrandC'', ''BrandD'', ''BrandE'', ''Generic'']"

text \<open>
  The body of the loop of \<^verbatim>\<open>generate_products\<close> for index \<open>i\<close>. Both lists are non-empty
  literals, so \<^verbatim>\<open>random.choice\<close> cannot raise; the draw is written out.
\<close>

definition make_product :: "int \<Rightarrow> rng \<Rightarrow> product \<times> rng" where
  "make_product i g0 =
     (let cat = categories ! (shd g0 mod length categories); g1 = stl g0;
          pid = CHR ''P'' # format_0d 4 i;
          br = brands ! (shd g1 mod length brands); g2 = stl g1;
          (pr, g3) = uniform 10 500 g2;
          (co, g4) = uniform 5 250 g3;
          (sq, g5) = randint 0 500 g4;
          (ra, g6) = uniform 3 5 g5;
          (nr, g7) = randint 0 200 g6;
          (dd, g8) = randint 30 365 g7
      in (\<lparr> product.id_field = pid, product.product_id = pid,
             product.name = cat @ '' Product '' @ py_str i,
             product.category = cat, brand = br,
             price = py_round pr 2, cost = py_round co 2,
             stock_quantity = sq, product.rating = py_round ra 1,
             num_reviews = nr, created_date = 0 - dd \<rparr>, g8))"

fun products_loop :: "int list \<Rightarrow> product list \<Rightarrow> rng \<Rightarrow> product list \<times> rng" where
  "products_loop [] products g = (products, g)"
| "products_loop (i # is) products g =
     (case make_product i g of (p, g') \<Rightarrow> products_loop is (products @ [p]) g')"

definition generate_products :: "int \<Rightarrow> rng \<Rightarrow> product list \<times> rng" where
  "generate_products n g = products_loop [1..n] [] g"

subsection \<open>\<^verbatim>\<open>generate_customers\<close>\<close>

definition cities :: "string list" where
  "cities = [''New York'', ''Los Angeles'', ''Chicago'', ''Houston'', ''Phoenix'', ''Philadelphia'',
     ''San Antonio'', ''San Diego'', ''Dallas'', ''San Jose'']"

definition states :: "string list" where
  "states = [''NY'', ''CA'', ''IL'', ''TX'', ''AZ'', ''PA'', ''TX'', ''CA'', ''TX'', ''CA'']"

definition tiers :: "string list" where
  "tiers = [''Bronze'', ''Silver'', ''Gold'', ''Platinum'']"

definition make_customer :: "int \<Rightarrow> rng \<Rightarrow> customer \<times> rng" where
  "make_customer i g0 =
     (let (city_idx, g1) = randint 0 (int (length cities) - 1) g0;
          cid = CHR ''C'' # format_0d 5 i;
          (jd, g2) = randint 1 730 g1;
          tier = tiers ! (shd g2 mod length tiers); g3 = stl g2
      in (\<lparr> customer.id_field = cid, customer.customer_id = cid,
             customer.name = ''Customer '' @ py_str i,
             email = ''customer'' @ py_str i @ ''@email.com'',
             city = cities ! nat city_idx, state = states ! nat city_idx,
             join_date = 0 - jd, loyalty_tier = tier,
             total_spent = 0, order_count = 0 \<rparr>, g3))"

fun customers_loop :: "int list \<Rightarrow> customer list \<Rightarrow> rng \<Rightarrow> customer list \<times> rng" where
  "customers_loop [] customers g = (customers, g)"
| "customers_loop (i # is) customers g =
     (case make_customer i g of (c, g') \<Rightarrow> customers_loop is (customers @ [c]) g')"

definition generate_customers :: "int \<Rightarrow> rng \<Rightarrow> customer list \<times> rng" where
  "generate_customers n g = customers_loop [1..n] [] g"

subsection \<open>\<^verbatim>\<open>generate_orders\<close>\<close>

text \<open>
  The inner loop \<^verbatim>\<open>for _ in range(num_items)\<close>: \<open>running_total\<close> is the running, unrounded
  \<^verbatim>\<open>total_amount\<close>.
\<close>

fun items_loop ::
  "nat \<Rightarrow> product list \<Rightarrow> order_item list \<Rightarrow> real \<Rightarrow> rng
     \<Rightarrow> py_exception + (order_item list \<times> real \<times> rng)" where
  "items_loop 0 products its running_total g = Inr (its, running_total, g)"
| "items_loop (Suc k) products its running_total g =
     (case choice products g of
        Inl e \<Rightarrow> Inl e
      | Inr (p, g1) \<Rightarrow>
          (case randint 1 3 g1 of (q, g2) \<Rightarrow>
             (let it_total = price p * of_int q
              in items_loop k products
                   (its @ [\<lparr> order_item.product_id = product.product_id p,
                              order_item.product_name = product.name p,
                              order_item.category = product.category p,
                              quantity = q, unit_price = price p,
                              item_total = py_round it_total 2 \<rparr>])
                   (running_total + it_total) g2)))"

definition statuses :: "string list" where
  "statuses = [''Completed'', ''Completed'', ''Completed'', ''Pending'', ''Shipped'']"

definition payment_methods :: "string list" where
  "payment_methods = [''Credit Card'', ''Debit Card'', ''PayPal'', ''Cash'']"

definition make_order ::
  "int \<Rightarrow> customer list \<Rightarrow> product list \<Rightarrow> rng \<Rightarrow> py_exception + (order \<times> rng)" where
  "make_order i customers products g0 =
     (case choice customers g0 of
        Inl e \<Rightarrow> Inl e
      | Inr (c, g1) \<Rightarrow>
          (case randint 0 180 g1 of (dd, g2) \<Rightarrow>
           (case randint 1 5 g2 of (num_items, g3) \<Rightarrow>
           (case items_loop (nat num_items) products [] 0 g3 of
             Inl e \<Rightarrow> Inl e
           | Inr (its, running_total, g4) \<Rightarrow>
               (case uniform 5 15 g4 of (sh, g5) \<Rightarrow>
                  (let st = statuses ! (shd g5 mod length statuses); g6 = stl g5;
                       pm = payment_methods ! (shd g6 mod length payment_methods); g7 = stl g6
                   in Inr (\<lparr> order.order_id = CHR ''O'' # format_0d 6 i,
                              order.id_field = CHR ''O'' # format_0d 6 i,
                              order.customer_id = customer.customer_id c,
                              order.customer_name = customer.name c,
                              customer_city = city c,
                              customer_state = state c,
                              order_date = 0 - dd,
                              items = its,
                              total_amount = py_round running_total 2,
                              shipping_cost = py_round sh 2,
                              tax = py_round (running_total * (8 / 100)) 2,
                              status = st,
                              payment_method = pm \<rparr>, g7)))))))"

fun orders_loop ::
  "int list \<Rightarrow> customer list \<Rightarrow> product list \<Rightarrow> order list \<Rightarrow> rng
     \<Rightarrow> py_exception + (order list \<times> rng)" where
  "orders_loop [] customers products orders g = Inr (orders, g)"
| "orders_loop (i # is) customers products orders g =
     (case make_order i customers products g of
        Inl e \<Rightarrow> Inl e
      | Inr (ord, g') \<Rightarrow> orders_loop is customers products (orders @ [ord]) g')"

definition generate_orders ::
  "customer list \<Rightarrow> product list \<Rightarrow> int \<Rightarrow> rng \<Rightarrow> py_exception + (order list \<times> rng)" where
  "generate_orders customers products n g = orders_loop [1..n] customers products [] g"

subsection \<open>\<^verbatim>\<open>generate_reviews\<close>\<close>

definition review_texts :: "(int \<times> string) list" where
  "review_texts =
     [(1, ''Very disappointed with this purchase. Would not recommend.''),
      (2, ''Below expectations. Several issues encountered.''),
      (3, ''Average product. Does the job but nothing special.''),
      (4, ''Good product. Happy with the purchase overall.''),
      (5, ''Excellent quality! Exceeded my expectations. Highly recommend!'')]"

text \<open>
  One iteration of the loop of \<^verbatim>\<open>generate_reviews\<close>: \<open>None\<close> when the chosen order has
  no items, in which case no review is appended for index \<open>i\<close>.
\<close>

definition make_review ::
  "int \<Rightarrow> order list \<Rightarrow> rng \<Rightarrow> py_exception + (review option \<times> rng)" where
  "make_review i orders g0 =
     (case choice orders g0 of
        Inl e \<Rightarrow> Inl e
      | Inr (ord, g1) \<Rightarrow>
          if items ord \<noteq> [] then
            (case choice (items ord) g1 of
               Inl e \<Rightarrow> Inl e
             | Inr (it, g2) \<Rightarrow>
                 (case randint 1 5 g2 of (ra, g3) \<Rightarrow>
                  (case randint 1 30 g3 of (rd, g4) \<Rightarrow>
                  (case randint 0 50 g4 of (hv, g5) \<Rightarrow>
                    Inr (Some \<lparr> review_id = CHR ''R'' # format_0d 5 i,
                                 review.id_field = CHR ''R'' # format_0d 5 i,
                                 review.order_id = order.order_id ord,
                                 review.product_id = order_item.product_id it,
                                 review.product_name = order_item.product_name it,
                                 review.customer_id = order.customer_id ord,
                                 review.customer_name = order.customer_name ord,
                                 review.rating = ra,
                                 review_text =
                                   (case map_of review_texts ra of
                                      Some t \<Rightarrow> t | None \<Rightarrow> ''Good product''),
                                 review_date = order_date ord + rd,
                                 helpful_votes = hv \<rparr>, g5)))))
          else Inr (None, g1))"

fun reviews_loop ::
  "int list \<Rightarrow> order list \<Rightarrow> review list \<Rightarrow> rng \<Rightarrow> py_exception + (review list \<times> rng)" where
  "reviews_loop [] orders reviews g = Inr (reviews, g)"
| "reviews_loop (i # is) orders reviews g =
     (case make_review i orders g of
        Inl e \<Rightarrow> Inl e
      | Inr (None, g') \<Rightarrow> reviews_loop is orders reviews g'
      | Inr (Some r, g') \<Rightarrow> reviews_loop is orders (reviews @ [r]) g')"

definition generate_reviews ::
  "order list \<Rightarrow> int \<Rightarrow> rng \<Rightarrow> py_exception + (review list \<times> rng)" where
  "generate_reviews orders n g = reviews_loop [1..n] orders [] g"

subsection \<open>The document store and the world of the uploader\<close>

text \<open>
  The four collections of \<^verbatim>\<open>COLLECTIONS\<close> (each key maps to the collection of the same
  name).
\<close>

datatype cname = Products | Customers | Orders | Reviews

datatype doc = ProductDoc product | CustomerDoc customer | OrderDoc order | ReviewDoc review

type_synonym doc_id = nat

text \<open>
  The pymongo client is a parameter: a record of operations over a store state \<open>'s\<close>.
  A call returns its value or the exception it raises, and the next store state.
  \<^item> \<open>count_documents c\<close>: \<^verbatim>\<open>db[c].count_documents({})\<close>;
  \<^item> \<open>bulk_write c batch\<close>: \<^verbatim>\<open>db[c].bulk_write([InsertOne(d) for d in batch], ordered=False)\<close>,
    returning \<^verbatim>\<open>result.inserted_count\<close> (\<open>None\<close> when the result has no such attribute);
  \<^item> \<open>insert_one c d\<close>: \<^verbatim>\<open>db[c].insert_one(d)\<close>;
  \<^item> \<open>find_ids c k\<close>: \<^verbatim>\<open>list(db[c].find({}, {'_id': 1}).limit(k))\<close>, as the list of the ids;
  \<^item> \<open>delete_many c ids\<close>: \<^verbatim>\<open>db[c].delete_many({'_id': {'$in': ids}})\<close>, returning
    \<^verbatim>\<open>result.deleted_count\<close>.
\<close>

record 's store_ops =
  count_documents :: "cname \<Rightarrow> 's \<Rightarrow> py_exception + nat"
  bulk_write :: "cname \<Rightarrow> doc list \<Rightarrow> 's \<Rightarrow> (py_exception + nat option) \<times> 's"
  insert_one :: "cname \<Rightarrow> doc \<Rightarrow> 's \<Rightarrow> (py_exception + unit) \<times> 's"
  find_ids :: "cname \<Rightarrow> nat \<Rightarrow> 's \<Rightarrow> py_exception + doc_id list"
  delete_many :: "cname \<Rightarrow> doc_id list \<Rightarrow> 's \<Rightarrow> (py_exception + nat) \<times> 's"

text \<open>What the uploader does to the outside, in order: the write calls and the sleeps.\<close>

datatype event =
    BulkWrite cname "doc list"
  | InsertOne cname doc
  | DeleteMany cname "doc_id list"
  | Sleep real

record 's world =
  store :: 's
  rng_state :: rng
  trace :: "event list"

text \<open>The module-level configuration constants.\<close>

record config =
  RESET_DATABASE :: bool
  FORCE_UPLOAD :: bool
  MIN_DOCS_PER_COLLECTION :: nat
  BATCH_SIZE :: nat
  BATCH_DELAY :: real

definition module_config :: config where
  "module_config =
     \<lparr> RESET_DATABASE = False, FORCE_UPLOAD = False, MIN_DOCS_PER_COLLECTION = 50,
       BATCH_SIZE = 5, BATCH_DELAY = 2 \<rparr>"

subsection \<open>\<^verbatim>\<open>insert_in_batches\<close>\<close>

definition max_retries :: nat where
  "max_retries = 5"

text \<open>The test on \<^verbatim>\<open>str(e)\<close> that recognises a rate-limit error.\<close>

definition rate_limited :: "string \<Rightarrow> bool" where
  "rate_limited msg \<longleftrightarrow>
     sublist ''16500'' msg \<or> sublist ''429'' msg \<or> sublist ''RequestRateTooLarge'' msg
     \<or> sublist ''TooManyRequests'' msg \<or> sublist ''RetryAfterMs'' msg"

text \<open>
  The fallback \<^verbatim>\<open>for doc in batch\<close>: one \<^verbatim>\<open>insert_one\<close> per document, any exception of
  which is caught; the sleep of half a second follows a successful insert only.
\<close>

fun insert_each ::
  "'s store_ops \<Rightarrow> cname \<Rightarrow> doc list \<Rightarrow> nat \<Rightarrow> 's world \<Rightarrow> nat \<times> 's world" where
  "insert_each ops c [] inserted w = (inserted, w)"
| "insert_each ops c (d # ds) inserted w =
     (case insert_one ops c d (store w) of
        (Inr u, s') \<Rightarrow>
          insert_each ops c ds (inserted + 1)
            (w\<lparr>store := s', trace := trace w @ [InsertOne c d, Sleep (1 / 2)]\<rparr>)
      | (Inl e, s') \<Rightarrow>
          insert_each ops c ds inserted (w\<lparr>store := s', trace := trace w @ [InsertOne c d]\<rparr>))"

text \<open>
  The loop \<^verbatim>\<open>while attempt <= max_retries\<close> for one batch. The result is the new value
  of \<^verbatim>\<open>inserted\<close>, or the exception that leaves \<^verbatim>\<open>insert_in_batches\<close> (one that is not
  a \<^verbatim>\<open>PyMongoError\<close>).
\<close>

function write_batch ::
  "'s store_ops \<Rightarrow> config \<Rightarrow> cname \<Rightarrow> doc list \<Rightarrow> nat \<Rightarrow> nat \<Rightarrow> 's world
     \<Rightarrow> (py_exception + nat) \<times> 's world" where
  "write_batch ops cfg c batch attempt inserted w =
     (if attempt \<le> max_retries then
        (case bulk_write ops c batch (store w) of
           (Inr inserted_count, s') \<Rightarrow>
             (Inr (inserted + (case inserted_count of Some k \<Rightarrow> k | None \<Rightarrow> length batch)),
              w\<lparr>store := s', trace := trace w @ [BulkWrite c batch, Sleep (BATCH_DELAY cfg)]\<rparr>)
         | (Inl (BulkWriteError n_inserted), s') \<Rightarrow>
             (Inr (inserted + (case n_inserted of Some k \<Rightarrow> k | None \<Rightarrow> 0)),
              w\<lparr>store := s', trace := trace w @ [BulkWrite c batch, Sleep (BATCH_DELAY cfg * 2)]\<rparr>)
         | (Inl (PyMongoError msg), s') \<Rightarrow>
             (if rate_limited msg then
                (case py_random (rng_state w) of (u, g') \<Rightarrow>
                   (let backoff = 2 ^ attempt * BATCH_DELAY cfg + u * (1 / 2);
                        w' = w\<lparr>store := s', rng_state := g',
                               trace := trace w @ [BulkWrite c batch, Sleep backoff]\<rparr>
                    in if attempt + 1 > max_retries then (Inr inserted, w')
                       else write_batch ops cfg c batch (attempt + 1) inserted w'))
              else
                (case insert_each ops c batch inserted
                        (w\<lparr>store := s', trace := trace w @ [BulkWrite c batch]\<rparr>) of
                   (inserted', w') \<Rightarrow> (Inr inserted', w')))
         | (Inl e, s') \<Rightarrow> (Inl e, w\<lparr>store := s', trace := trace w @ [BulkWrite c batch]\<rparr>))
      else (Inr inserted, w))"
  by pat_completeness auto
termination
  by (relation "measure (\<lambda>(ops, cfg, c, batch, attempt, inserted, w). max_retries + 1 - attempt)")
     auto

declare write_batch.simps [simp del]

text \<open>
  The loop \<^verbatim>\<open>for i in range(0, total, batch_size)\<close>, with
  \<^verbatim>\<open>batch = data[i:i + batch_size]\<close>.
\<close>

function batches_loop ::
  "'s store_ops \<Rightarrow> config \<Rightarrow> cname \<Rightarrow> doc list \<Rightarrow> nat \<Rightarrow> nat \<Rightarrow> nat \<Rightarrow> 's world
     \<Rightarrow> (py_exception + nat) \<times> 's world" where
  "batches_loop ops cfg c data batch_size i inserted w =
     (if 0 < batch_size \<and> i < length data then
        (case write_batch ops cfg c (take batch_size (drop i data)) 0 inserted w of
           (Inl e, w') \<Rightarrow> (Inl e, w')
         | (Inr inserted', w') \<Rightarrow>
             batches_loop ops cfg c data batch_size (i + batch_size) inserted' w')
      else (Inr inserted, w))"
  by pat_completeness auto
termination
  by (relation "measure (\<lambda>(ops, cfg, c, data, batch_size, i, inserted, w). length data - i)")
     auto

declare batches_loop.simps [simp del]

text \<open>\<^verbatim>\<open>range(0, total, 0)\<close> raises \<^verbatim>\<open>ValueError\<close>.\<close>

definition insert_in_batches ::
  "'s store_ops \<Rightarrow> config \<Rightarrow> cname \<Rightarrow> doc list \<Rightarrow> nat \<Rightarrow> 's world
     \<Rightarrow> (py_exception + nat) \<times> 's world" where
  "insert_in_batches ops cfg c data batch_size w =
     (if batch_size = 0 then (Inl ValueError, w)
      else batches_loop ops cfg c data batch_size 0 0 w)"

text \<open>The default \<^verbatim>\<open>batch_size=10\<close> of \<^verbatim>\<open>insert_in_batches\<close>.\<close>

definition default_batch_size :: nat where
  "default_batch_size = 10"

subsection \<open>\<^verbatim>\<open>clear_collection_safely\<close>\<close>

text \<open>
  The loop \<^verbatim>\<open>while True\<close> has no bound: a store whose deletes keep failing, or whose scan
  never comes back empty, keeps it running. Not returning is the value \<open>None\<close>.
\<close>

definition is_pymongo_error :: "py_exception \<Rightarrow> bool" where
  "is_pymongo_error e = (case e of BulkWriteError d \<Rightarrow> True | PyMongoError m \<Rightarrow> True | _ \<Rightarrow> False)"

partial_function (option) clear_collection_safely ::
  "'s store_ops \<Rightarrow> cname \<Rightarrow> nat \<Rightarrow> nat \<Rightarrow> 's world
     \<Rightarrow> ((py_exception + nat) \<times> 's world) option" where
  "clear_collection_safely ops c batch_size deleted w =
     (case find_ids ops c batch_size (store w) of
        Inl e \<Rightarrow> Some (Inl e, w)
      | Inr ids \<Rightarrow>
          if ids = [] then Some (Inr deleted, w)
          else
            (case delete_many ops c ids (store w) of
               (Inr deleted_count, s') \<Rightarrow>
                 clear_collection_safely ops c batch_size (deleted + deleted_count)
                   (w\<lparr>store := s', trace := trace w @ [DeleteMany c ids, Sleep (3 / 2)]\<rparr>)
             | (Inl e, s') \<Rightarrow>
                 if is_pymongo_error e then
                   clear_collection_safely ops c batch_size deleted
                     (w\<lparr>store := s', trace := trace w @ [DeleteMany c ids, Sleep 3]\<rparr>)
                 else Some (Inl e, w\<lparr>store := s', trace := trace w @ [DeleteMany c ids]\<rparr>)))"

subsection \<open>The upload of one entity kind\<close>

text \<open>
  \<^verbatim>\<open>upload_to_cosmos_db\<close> repeats one block for products, customers, orders and reviews;
  \<open>upload_collection\<close> is that block for the collection \<open>c\<close> and its generated \<open>data\<close>.
  Both helpers are called with their default batch sizes (10 and 20). The result is
  \<open>Some n\<close> for \<open>n\<close> uploaded documents and \<open>None\<close> for a skipped collection.
\<close>

definition upload_collection ::
  "'s store_ops \<Rightarrow> config \<Rightarrow> cname \<Rightarrow> doc list \<Rightarrow> 's world
     \<Rightarrow> ((py_exception + nat option) \<times> 's world) option" where
  "upload_collection ops cfg c data w =
     (case count_documents ops c (store w) of
        Inl e \<Rightarrow> Some (Inl e, w)
      | Inr count \<Rightarrow>
          if FORCE_UPLOAD cfg \<or> count < MIN_DOCS_PER_COLLECTION cfg then
            (case (if count > 0 \<and> FORCE_UPLOAD cfg
                   then clear_collection_safely ops c 20 0 w
                   else Some (Inr 0, w)) of
               None \<Rightarrow> None
             | Some (Inl e, w1) \<Rightarrow> Some (Inl e, w1)
             | Some (Inr deleted, w1) \<Rightarrow>
                 (case insert_in_batches ops cfg c data default_batch_size w1 of
                    (Inl e, w2) \<Rightarrow> Some (Inl e, w2)
                  | (Inr inserted, w2) \<Rightarrow> Some (Inr (Some inserted), w2)))
          else Some (Inr None, w))"

subsection \<open>The dashboard: data frames\<close>

datatype cell = Str string | Int int | Num real | NaN

type_synonym document = "(string \<times> cell) list"

record dataframe =
  columns :: "string list"
  rows :: "cell list list"

text \<open>\<^verbatim>\<open>pd.DataFrame()\<close>.\<close>

definition empty_frame :: dataframe where
  "empty_frame = \<lparr> columns = [], rows = [] \<rparr>"

text \<open>The keys of the documents in the order of their first appearance.\<close>

fun first_seen :: "string list \<Rightarrow> string list \<Rightarrow> string list" where
  "first_seen seen [] = seen"
| "first_seen seen (k # ks) = first_seen (if k \<in> set seen then seen else seen @ [k]) ks"

text \<open>
  \<^verbatim>\<open>pd.DataFrame(data)\<close> for a list of dictionaries: one column per key, one row per
  document, \<^verbatim>\<open>NaN\<close> where a document lacks the key.
\<close>

definition DataFrame :: "document list \<Rightarrow> dataframe" where
  "DataFrame data =
     (let cols = first_seen [] (concat (map (map fst) data))
      in \<lparr> columns = cols,
           rows = map (\<lambda>d. map (\<lambda>k. case map_of d k of Some v \<Rightarrow> v | None \<Rightarrow> NaN) cols) data \<rparr>)"

text \<open>\<^verbatim>\<open>df.columns = names\<close> raises \<^verbatim>\<open>ValueError\<close> on a length mismatch.\<close>

definition set_columns :: "dataframe \<Rightarrow> string list \<Rightarrow> py_exception + dataframe" where
  "set_columns df names =
     (if length names = length (columns df) then Inr (df\<lparr>columns := names\<rparr>) else Inl ValueError)"

subsection \<open>The dashboard: connection and queries\<close>

datatype accumulator = SumOne | SumOf string | AvgOf string | FirstOf string

datatype stage =
    Group string "(string \<times> accumulator) list"
  | MatchGte string int
  | Sort "(string \<times> int) list"
  | Limit nat

datatype client = MongoClient

text \<open>
  The database seen from the dashboard:
  \<^item> \<open>connect\<close>: \<^verbatim>\<open>MongoClient(...)\<close> followed by \<^verbatim>\<open>client.server_info()\<close>;
  \<^item> \<open>find_all c\<close>: \<^verbatim>\<open>list(db.c.find({}, {'_id': 0}))\<close>;
  \<^item> \<open>aggregate c pipeline\<close>: \<^verbatim>\<open>list(db.c.aggregate(pipeline))\<close>.
  The cache decorators are not modelled: a cached call returns what the call it stands
  for returned.
\<close>

record dash_env =
  connect :: "py_exception + client"
  find_all :: "string \<Rightarrow> py_exception + document list"
  aggregate :: "string \<Rightarrow> stage list \<Rightarrow> py_exception + document list"

text \<open>\<^verbatim>\<open>str(e)\<close>.\<close>

fun exception_str :: "py_exception \<Rightarrow> string" where
  "exception_str IndexError = ''list index out of range''"
| "exception_str ValueError = ''Length mismatch''"
| "exception_str (BulkWriteError d) = ''batch op errors occurred''"
| "exception_str (PyMongoError m) = m"
| "exception_str (OtherException m) = m"

text \<open>
  A computation of the dashboard returns its value or the exception it raises, and the
  messages it has shown with \<^verbatim>\<open>st.error\<close>.
\<close>

type_synonym 'a ui = "(py_exception + 'a) \<times> string list"

text \<open>
  \<^verbatim>\<open>try: body except Exception as e: st.error(label + str(e)); return pd.DataFrame()\<close>.
  Every constructor of \<open>py_exception\<close> is a subclass of \<^verbatim>\<open>Exception\<close>.
\<close>

definition try_except_empty :: "dataframe ui \<Rightarrow> string \<Rightarrow> dataframe ui" where
  "try_except_empty body label =
     (case body of
        (Inr df, msgs) \<Rightarrow> (Inr df, msgs)
      | (Inl e, msgs) \<Rightarrow> (Inr empty_frame, msgs @ [label @ exception_str e]))"

definition init_connection :: "dash_env \<Rightarrow> (client option) ui" where
  "init_connection env =
     (case connect env of
        Inr cl \<Rightarrow> (Inr (Some cl), [])
      | Inl e \<Rightarrow> (Inr None, [''Failed to connect to Azure Cosmos DB: '' @ exception_str e]))"

text \<open>The body shared by the four loaders, for the collection \<open>c\<close>.\<close>

definition load_body :: "dash_env \<Rightarrow> string \<Rightarrow> dataframe ui" where
  "load_body env c =
     (case init_connection env of
        (Inl e, msgs) \<Rightarrow> (Inl e, msgs)
      | (Inr None, msgs) \<Rightarrow> (Inr empty_frame, msgs)
      | (Inr (Some cl), msgs) \<Rightarrow>
          (case find_all env c of
             Inl e \<Rightarrow> (Inl e, msgs)
           | Inr data \<Rightarrow> (Inr (DataFrame data), msgs)))"

definition load_products :: "dash_env \<Rightarrow> dataframe ui" where
  "load_products env = try_except_empty (load_body env ''products'') ''Error loading products: ''"

definition load_customers :: "dash_env \<Rightarrow> dataframe ui" where
  "load_customers env = try_except_empty (load_body env ''customers'') ''Error loading customers: ''"

definition load_orders :: "dash_env \<Rightarrow> dataframe ui" where
  "load_orders env = try_except_empty (load_body env ''orders'') ''Error loading orders: ''"

definition load_reviews :: "dash_env \<Rightarrow> dataframe ui" where
  "load_reviews env = try_except_empty (load_body env ''reviews'') ''Error loading reviews: ''"

text \<open>
  The body shared by the three aggregation functions: the pipeline on the collection
  \<open>c\<close>, then the renaming of the columns when the result is not empty.
\<close>

definition aggregate_body :: "dash_env \<Rightarrow> string \<Rightarrow> stage list \<Rightarrow> string list \<Rightarrow> dataframe ui" where
  "aggregate_body env c pipeline names =
     (case init_connection env of
        (Inl e, msgs) \<Rightarrow> (Inl e, msgs)
      | (Inr None, msgs) \<Rightarrow> (Inr empty_frame, msgs)
      | (Inr (Some cl), msgs) \<Rightarrow>
          (case aggregate env c pipeline of
             Inl e \<Rightarrow> (Inl e, msgs)
           | Inr data \<Rightarrow>
               if data \<noteq> [] then (set_columns (DataFrame data) names, msgs)
               else (Inr empty_frame, msgs)))"

definition category_pipeline :: "stage list" where
  "category_pipeline =
     [Group ''$category''
        [(''total_products'', SumOne), (''avg_price'', AvgOf ''$price''),
         (''avg_rating'', AvgOf ''$rating''), (''total_stock'', SumOf ''$stock_quantity'')],
      Sort [(''total_products'', - 1)]]"

definition get_category_stats :: "dash_env \<Rightarrow> dataframe ui" where
  "get_category_stats env =
     try_except_empty
       (aggregate_body env ''products'' category_pipeline
          [''category'', ''total_products'', ''avg_price'', ''avg_rating'', ''total_stock''])
       ''Error loading category stats: ''"

definition state_pipeline :: "stage list" where
  "state_pipeline =
     [Group ''$customer_state''
        [(''total_orders'', SumOne), (''total_revenue'', SumOf ''$total_amount''),
         (''avg_order_value'', AvgOf ''$total_amount'')],
      Sort [(''total_revenue'', - 1)]]"

definition get_sales_by_state :: "dash_env \<Rightarrow> dataframe ui" where
  "get_sales_by_state env =
     try_except_empty
       (aggregate_body env ''orders'' state_pipeline
          [''state'', ''total_orders'', ''total_revenue'', ''avg_order_value''])
       ''Error loading sales by state: ''"

definition top_pipeline :: "stage list" where
  "top_pipeline =
     [Group ''$product_id''
        [(''product_name'', FirstOf ''$product_name''), (''avg_rating'', AvgOf ''$rating''),
         (''review_count'', SumOne)],
      MatchGte ''review_count'' 2,
      Sort [(''avg_rating'', - 1), (''review_count'', - 1)],
      Limit 15]"

definition get_top_products :: "dash_env \<Rightarrow> dataframe ui" where
  "get_top_products env =
     try_except_empty
       (aggregate_body env ''reviews'' top_pipeline
          [''product_id'', ''product_name'', ''avg_rating'', ''review_count''])
       ''Error loading top products: ''"

text \<open>The seven query functions, and the database call each one makes.\<close>

datatype query =
    LoadProducts | LoadCustomers | LoadOrders | LoadReviews
  | GetCategoryStats | GetSalesByState | GetTopProducts

fun run_query :: "query \<Rightarrow> dash_env \<Rightarrow> dataframe ui" where
  "run_query LoadProducts = load_products"
| "run_query LoadCustomers = load_customers"
| "run_query LoadOrders = load_orders"
| "run_query LoadReviews = load_reviews"
| "run_query GetCategoryStats = get_category_stats"
| "run_query GetSalesByState = get_sales_by_state"
| "run_query GetTopProducts = get_top_products"

fun source_call :: "query \<Rightarrow> dash_env \<Rightarrow> py_exception + document list" where
  "source_call LoadProducts env = find_all env ''products''"
| "source_call LoadCustomers env = find_all env ''customers''"
| "source_call LoadOrders env = find_all env ''orders''"
| "source_call LoadReviews env = find_all env ''reviews''"
| "source_call GetCategoryStats env = aggregate env ''products'' category_pipeline"
| "source_call GetSalesByState env = aggregate env ''orders'' state_pipeline"
| "source_call GetTopProducts env = aggregate env ''reviews'' top_pipeline"

fun error_label :: "query \<Rightarrow> string" where
  "error_label LoadProducts = ''Error loading products: ''"
| "error_label LoadCustomers = ''Error loading customers: ''"
| "error_label LoadOrders = ''Error loading orders: ''"
| "error_label LoadReviews = ''Error loading reviews: ''"
| "error_label GetCategoryStats = ''Error loading category stats: ''"
| "error_label GetSalesByState = ''Error loading sales by state: ''"
| "error_label GetTopProducts = ''Error loading top products: ''"

subsection \<open>The shape of an identifier\<close>

text \<open>
  An identifier of a kind: the letter of the kind followed by exactly \<open>w\<close> decimal
  digits, as in \<^verbatim>\<open>P0001\<close>, \<^verbatim>\<open>C00001\<close>, \<^verbatim>\<open>O000001\<close> and \<^verbatim>\<open>R00001\<close>.
\<close>

definition is_digit :: "char \<Rightarrow> bool" where
  "is_digit ch \<longleftrightarrow> ch \<in> set ''0123456789''"

definition fixed_width_id :: "char \<Rightarrow> nat \<Rightarrow> string \<Rightarrow> bool" where
  "fixed_width_id letter w s \<longleftrightarrow>
     (case s of [] \<Rightarrow> False | x # ds \<Rightarrow> x = letter \<and> length ds = w \<and> list_all is_digit ds)"

subsection \<open>Sample runs\<close>

text \<open>
  Concrete runs of the generators, on which the theorems below are instantiated: one
  customer, one product (of price 10.00), and one order of two items (quantities 2 and 1).
\<close>

definition sample_customers :: "customer list" where
  "sample_customers = fst (generate_customers 1 (sconst 0))"

definition sample_products :: "product list" where
  "sample_products = fst (generate_products 1 (sconst 0))"

definition sample_orders_rng :: rng where
  "sample_orders_rng = [0, 0, 1, 0, 1, 0, 0] @- sconst 0"

definition sample_orders :: "order list" where
  "sample_orders =
     (case generate_orders sample_customers sample_products 1 sample_orders_rng of
        Inr (ords, g) \<Rightarrow> ords | Inl e \<Rightarrow> [])"

definition sample_reviews :: "review list" where
  "sample_reviews =
     (case generate_reviews sample_orders 2 (sconst 0) of
        Inr (revs, g) \<Rightarrow> revs | Inl e \<Rightarrow> [])"

subsection \<open>Sample stores and environments\<close>

text \<open>
  Two stores to run the uploader on. The first keeps each collection as a list and never
  fails; the second answers every bulk write with the rate-limit error of Cosmos DB.
\<close>

definition memory_store :: "(cname \<Rightarrow> doc list) store_ops" where
  "memory_store =
     \<lparr> count_documents = (\<lambda>c s. Inr (length (s c))),
       bulk_write = (\<lambda>c batch s. (Inr (Some (length batch)), s(c := s c @ batch))),
       insert_one = (\<lambda>c d s. (Inr (), s(c := s c @ [d]))),
       find_ids = (\<lambda>c k s. Inr (take k [0..<length (s c)])),
       delete_many = (\<lambda>c ids s. (Inr (min (length ids) (length (s c))),
                                   s(c := drop (length ids) (s c)))) \<rparr>"

definition throttled_store :: "(cname \<Rightarrow> doc list) store_ops" where
  "throttled_store =
     memory_store\<lparr> bulk_write :=
       (\<lambda>c batch s. (Inl (PyMongoError ''Request rate is large: TooManyRequests (429)''), s)) \<rparr>"

definition sample_docs :: "doc list" where
  "sample_docs = map ProductDoc (fst (generate_products 50 (sconst 0)))"

definition empty_world :: "(cname \<Rightarrow> doc list) world" where
  "empty_world = \<lparr> store = (\<lambda>c. []), rng_state = sconst 0, trace = [] \<rparr>"

definition populated_world :: "(cname \<Rightarrow> doc list) world" where
  "populated_world =
     \<lparr> store = (\<lambda>c. replicate 50 (ProductDoc (hd sample_products))),
       rng_state = sconst 0, trace = [] \<rparr>"

text \<open>
  Three databases for the dashboard: one whose collections are all empty, one whose
  queries fail, and one that cannot be reached.
\<close>

definition empty_db :: dash_env where
  "empty_db = \<lparr> connect = Inr MongoClient, find_all = (\<lambda>c. Inr []),
                aggregate = (\<lambda>c pipeline. Inr []) \<rparr>"

definition failing_db :: dash_env where
  "failing_db =
     \<lparr> connect = Inr MongoClient,
       find_all = (\<lambda>c. Inl (PyMongoError ''cursor failed'')),
       aggregate = (\<lambda>c pipeline. Inl (OtherException ''pipeline failed'')) \<rparr>"

definition unreachable_db :: dash_env where
  "unreachable_db =
     \<lparr> connect = Inl (PyMongoError ''timed out''), find_all = (\<lambda>c. Inr []),
       aggregate = (\<lambda>c pipeline. Inr []) \<rparr>"

section \<open>Properties of the generators\<close>

subsection \<open>Random draws\<close>

lemma randint_range:
  assumes ab: "a \<le> b"
  shows "a \<le> fst (randint a b g) \<and> fst (randint a b g) \<le> b"
proof -
  have "shd g mod nat (b - a + 1) < nat (b - a + 1)" using ab by simp
  then have "int (shd g mod nat (b - a + 1)) < b - a + 1" using ab by linarith
  then show ?thesis by (simp add: randint_def)
qed

subsection \<open>Customers: city and state\<close>

lemma customers_loop_set:
  "set (fst (customers_loop js acc g)) \<subseteq> set acc \<union> {fst (make_customer i g') | i g'. i \<in> set js}"
proof (induction js arbitrary: acc g)
  case Nil
  then show ?case by simp
next
  case (Cons j js)
  obtain c g1 where mc: "make_customer j g = (c, g1)" by fastforce
  have cin: "c \<in> {fst (make_customer i g') | i g'. i \<in> set (j # js)}"
  proof -
    have "c = fst (make_customer j g)" using mc by simp
    then show ?thesis by fastforce
  qed
  have mono: "{fst (make_customer i g') | i g'. i \<in> set js}
      \<subseteq> {fst (make_customer i g') | i g'. i \<in> set (j # js)}"
    by fastforce
  have ih: "set (fst (customers_loop js (acc @ [c]) g1))
      \<subseteq> set (acc @ [c]) \<union> {fst (make_customer i g') | i g'. i \<in> set js}"
    by (rule Cons.IH)
  have eq: "customers_loop (j # js) acc g = customers_loop js (acc @ [c]) g1"
    using mc by simp
  have "set (acc @ [c]) \<subseteq> set acc \<union> {fst (make_customer i g') | i g'. i \<in> set (j # js)}"
    using cin by simp
  then show ?case unfolding eq using ih mono by blast
qed

lemma length_cities: "length cities = 10"
  by (simp add: cities_def)

lemma make_customer_city_state:
  "\<exists>k < 10. city (fst (make_customer i g)) = cities ! k \<and> state (fst (make_customer i g)) = states ! k"
proof -
  have r: "0 \<le> fst (randint 0 9 g) \<and> fst (randint 0 9 g) \<le> 9" by (rule randint_range) simp
  obtain k g1 where rk: "randint 0 9 g = (k, g1)" by fastforce
  have "nat k < 10" using r rk by auto
  moreover have "city (fst (make_customer i g)) = cities ! nat k" 
    using rk by (simp add: make_customer_def Let_def length_cities split: prod.splits)
  moreover have "state (fst (make_customer i g)) = states ! nat k" 
    using rk by (simp add: make_customer_def Let_def length_cities split: prod.splits)
  ultimately show ?thesis by blast
qed

lemma distinct_cities: "distinct cities" by (simp add: cities_def)

text \<open>
  Claim C10. For every customer produced by \<^verbatim>\<open>generate_customers\<close>, city and state are
  the entries of the two fixed ten-element lists at one shared index; since the ten city
  names are distinct, the city determines the state: the state is the entry of \<open>states\<close>
  at any index where \<open>cities\<close> holds the customer's city. In particular New York comes
  with NY and Chicago with IL.
\<close>

theorem customer_city_state_matched:
  assumes "c \<in> set (fst (generate_customers n g))"
  shows "(\<exists>k < 10. city c = cities ! k \<and> state c = states ! k)
       \<and> (\<forall>j < 10. city c = cities ! j \<longrightarrow> state c = states ! j)
       \<and> (city c = ''New York'' \<longrightarrow> state c = ''NY'')
       \<and> (city c = ''Chicago'' \<longrightarrow> state c = ''IL'')"
proof -
  from assms customers_loop_set [of "[1..n]" "[]" g]
  obtain i g' where c: "c = fst (make_customer i g')"
    by (auto simp: generate_customers_def)
  from make_customer_city_state [of i g'] c
  obtain k where k: "k < 10" "city c = cities ! k" "state c = states ! k"
    by blast
  have uniq: "j = k" if "j < 10" "city c = cities ! j" for j
    using that k distinct_cities length_cities by (simp add: nth_eq_iff_index_eq)
  have a: "\<forall>j < 10. city c = cities ! j \<longrightarrow> state c = states ! j" using uniq k by blast
  have ny: "cities ! 0 = ''New York''" "states ! 0 = ''NY''" 
           "cities ! 2 = ''Chicago''" "states ! 2 = ''IL''"
    by (simp_all add: cities_def states_def)
  have b: "city c = ''New York'' \<longrightarrow> state c = ''NY''" using a [rule_format, of 0] ny by simp
  have d: "city c = ''Chicago'' \<longrightarrow> state c = ''IL''" using a [rule_format, of 2] ny by simp
  show ?thesis using k a b d by blast
qed

theorem customer_city_state_matched_witness:
  "hd (fst (generate_customers 1 ([2, 100, 3] @- sconst 0)))
      \<in> set (fst (generate_customers 1 ([2, 100, 3] @- sconst 0)))
   \<and> city (hd (fst (generate_customers 1 ([2, 100, 3] @- sconst 0)))) = ''Chicago''
   \<and> state (hd (fst (generate_customers 1 ([2, 100, 3] @- sconst 0)))) = ''IL''"
proof -
  have ne: "fst (generate_customers 1 ([2, 100, 3] @- sconst 0)) \<noteq> []"
    by (simp add: generate_customers_def upto.simps split: prod.splits)
  then have h: "hd (fst (generate_customers 1 ([2, 100, 3] @- sconst 0)))
      \<in> set (fst (generate_customers 1 ([2, 100, 3] @- sconst 0)))"
    by simp
  have c: "city (hd (fst (generate_customers 1 ([2, 100, 3] @- sconst 0)))) = ''Chicago''"
    by (simp add: generate_customers_def upto.simps make_customer_def randint_def Let_def
        length_cities cities_def)
  show ?thesis using h c customer_city_state_matched [OF h] by simp
qed

subsection \<open>Rounding\<close>

lemma round_half_even_error:
  "\<bar>of_int (round_half_even y) - y\<bar> \<le> 1 / 2"
proof -
  have "of_int \<lfloor>y\<rfloor> \<le> y" "y < of_int \<lfloor>y\<rfloor> + 1" by linarith+
  then show ?thesis by (auto simp: round_half_even_def Let_def)
qed

lemma round_half_even_of_int [simp]: "round_half_even (of_int m) = m"
  by (simp add: round_half_even_def)

lemma round_half_even_ge: 
  assumes "of_int m \<le> y" shows "m \<le> round_half_even y"
proof -
  have "m \<le> \<lfloor>y\<rfloor>" using assms by (simp add: le_floor_iff)
  moreover have "\<lfloor>y\<rfloor> \<le> round_half_even y" by (simp add: round_half_even_def Let_def)
  ultimately show ?thesis by linarith
qed

lemma round_half_even_le: 
  assumes "y \<le> of_int m" shows "round_half_even y \<le> m"
proof (cases "y = of_int m")
  case True then show ?thesis by simp
next
  case False
  then have "y < of_int m" using assms by simp
  then have "\<lfloor>y\<rfloor> < m" by (simp add: floor_less_iff)
  moreover have "round_half_even y \<le> \<lfloor>y\<rfloor> + 1" by (simp add: round_half_even_def Let_def)
  ultimately show ?thesis by linarith
qed

lemma py_round_error: "\<bar>py_round x k - x\<bar> \<le> 1 / (2 * 10 ^ k)"
proof -
  have h: "\<bar>of_int (round_half_even (x * 10 ^ k)) - x * 10 ^ k\<bar> \<le> 1 / 2"
    by (rule round_half_even_error)
  have q: "\<bar>of_int (round_half_even (x * 10 ^ k)) - x * 10 ^ k\<bar> / 10 ^ k \<le> (1 / 2) / 10 ^ k"
    by (rule divide_right_mono [OF h]) simp
  have e: "py_round x k - x = (of_int (round_half_even (x * 10 ^ k)) - x * 10 ^ k) / 10 ^ k"
    by (simp add: py_round_def diff_divide_distrib)
  have "\<bar>py_round x k - x\<bar> = \<bar>of_int (round_half_even (x * 10 ^ k)) - x * 10 ^ k\<bar> / 10 ^ k"
    unfolding e by simp
  then show ?thesis using q by simp
qed

lemma py_round_between:
  assumes "of_int lo / 10 ^ k \<le> x" "x \<le> of_int hi / 10 ^ k"
  shows "of_int lo / 10 ^ k \<le> py_round x k \<and> py_round x k \<le> of_int hi / 10 ^ k"
proof -
  have p: "(0::real) < 10 ^ k" by simp
  have "of_int lo \<le> x * 10 ^ k" using assms(1) p by (simp add: pos_divide_le_eq)
  then have a: "lo \<le> round_half_even (x * 10 ^ k)" by (rule round_half_even_ge)
  have "x * 10 ^ k \<le> of_int hi" using assms(2) p by (simp add: pos_le_divide_eq)
  then have b: "round_half_even (x * 10 ^ k) \<le> hi" by (rule round_half_even_le)
  show ?thesis using a b p by (simp add: py_round_def divide_right_mono)
qed

lemma py_random_range: "0 \<le> fst (py_random g) \<and> fst (py_random g) < 1"
proof -
  have "shd g mod 2 ^ 53 < 2 ^ 53" by simp
  then have "real (shd g mod 2 ^ 53) < 2 ^ 53" 
    by (metis of_nat_less_iff of_nat_numeral of_nat_power)
  then show ?thesis by (simp add: py_random_def)
qed

lemma uniform_range:
  assumes "a \<le> b"
  shows "a \<le> fst (uniform a b g) \<and> fst (uniform a b g) \<le> b"
proof -
  obtain u g' where pr: "py_random g = (u, g')" by fastforce
  have u: "0 \<le> u" "u < 1" using py_random_range [of g] pr by simp_all
  have "0 \<le> (b - a) * u" using assms u by simp
  moreover have "(b - a) * u \<le> (b - a) * 1" using assms u by (intro mult_left_mono) simp_all
  ultimately show ?thesis using pr by (simp add: uniform_def)
qed

subsection \<open>Products: numeric fields\<close>

lemma sdrop_stl:
  "sdrop 2 g = stl (stl g)"
  "sdrop 3 g = stl (stl (stl g))"
  "sdrop 5 g = stl (stl (stl (stl (stl g))))"
  "sdrop 8 g = stl (stl (stl (stl (stl (stl (stl (stl g)))))))"
  by (simp_all add: eval_nat_numeral)

lemma make_product_rng: "snd (make_product i g) = sdrop 8 g"
  unfolding sdrop_stl
  by (simp add: make_product_def Let_def uniform_def py_random_def randint_def
      split: prod.splits)

lemma make_product_price:
  "price (fst (make_product i g)) = py_round (fst (uniform 10 500 (sdrop 2 g))) 2"
  unfolding sdrop_stl
  by (simp add: make_product_def Let_def uniform_def py_random_def randint_def
      split: prod.splits)

lemma make_product_cost:
  "cost (fst (make_product i g)) = py_round (fst (uniform 5 250 (sdrop 3 g))) 2"
  unfolding sdrop_stl
  by (simp add: make_product_def Let_def uniform_def py_random_def randint_def
      split: prod.splits)

lemma make_product_rating:
  "product.rating (fst (make_product i g)) = py_round (fst (uniform 3 5 (sdrop 5 g))) 1"
  unfolding sdrop_stl
  by (simp add: make_product_def Let_def uniform_def py_random_def randint_def
      split: prod.splits)

lemma make_product_id:
  "product.product_id (fst (make_product i g)) = CHR ''P'' # format_0d 4 i"
  "product.id_field (fst (make_product i g)) = CHR ''P'' # format_0d 4 i"
  by (simp_all add: make_product_def Let_def split: prod.splits)

lemma products_loop_closed:
  "products_loop js acc g =
     (acc @ map (\<lambda>k. fst (make_product (js ! k) (sdrop (8 * k) g))) [0..<length js],
      sdrop (8 * length js) g)"
proof (induction js arbitrary: acc g)
  case Nil
  then show ?case by simp
next
  case (Cons j js)
  obtain p g1 where mp: "make_product j g = (p, g1)" by fastforce
  have g1: "g1 = sdrop 8 g" using make_product_rng [of j g] mp by simp
  have p: "p = fst (make_product j g)" using mp by simp
  have "products_loop (j # js) acc g = products_loop js (acc @ [p]) g1" using mp by simp
  also have "\<dots> = ((acc @ [p]) @ map (\<lambda>k. fst (make_product (js ! k) (sdrop (8 * k) g1))) [0..<length js],
      sdrop (8 * length js) g1)"
    by (rule Cons.IH)
  also have "\<dots> = (acc @ map (\<lambda>k. fst (make_product ((j # js) ! k) (sdrop (8 * k) g))) [0..<length (j # js)],
      sdrop (8 * length (j # js)) g)"
    unfolding g1 p by (simp add: map_upt_Suc add.commute del: upt_Suc sdrop.simps(2))
  finally show ?case .
qed

lemma generate_products_closed:
  "generate_products n g =
     (map (\<lambda>k. fst (make_product (int k + 1) (sdrop (8 * k) g))) [0..<nat n],
      sdrop (8 * nat n) g)"
proof -
  have "map (\<lambda>k. fst (make_product ([1..n] ! k) (sdrop (8 * k) g))) [0..<nat n]
      = map (\<lambda>k. fst (make_product (int k + 1) (sdrop (8 * k) g))) [0..<nat n]"
    by (rule map_cong) (auto simp: add.commute)
  then show ?thesis by (simp add: generate_products_def products_loop_closed)
qed

text \<open>
  Claim C8, as amended. The product at position \<open>k\<close> of \<^verbatim>\<open>generate_products\<close> takes
  its price, cost and rating from three different raw draws of the random source (the
  draws \<open>8 * k + 2\<close>, \<open>8 * k + 3\<close> and \<open>8 * k + 5\<close>): the price is a sample of
  \<open>[10, 500]\<close> rounded to two decimals, the cost a sample of \<open>[5, 250]\<close> rounded to two
  decimals, and the rating a sample of \<open>[3, 5]\<close> rounded to one decimal (not two); each
  rounded value stays within its range. Nothing relates price and cost.
\<close>

theorem product_numeric_fields:
  assumes "k < length (fst (generate_products n g))"
  shows "price (fst (generate_products n g) ! k)
           = py_round (fst (uniform 10 500 (sdrop (8 * k + 2) g))) 2
       \<and> cost (fst (generate_products n g) ! k)
           = py_round (fst (uniform 5 250 (sdrop (8 * k + 3) g))) 2
       \<and> product.rating (fst (generate_products n g) ! k)
           = py_round (fst (uniform 3 5 (sdrop (8 * k + 5) g))) 1
       \<and> 10 \<le> price (fst (generate_products n g) ! k)
       \<and> price (fst (generate_products n g) ! k) \<le> 500
       \<and> 5 \<le> cost (fst (generate_products n g) ! k)
       \<and> cost (fst (generate_products n g) ! k) \<le> 250
       \<and> 3 \<le> product.rating (fst (generate_products n g) ! k)
       \<and> product.rating (fst (generate_products n g) ! k) \<le> 5"
proof -
  have k: "k < nat n" using assms by (simp add: generate_products_closed)
  have nth: "fst (generate_products n g) ! k = fst (make_product (int k + 1) (sdrop (8 * k) g))"
    using k by (simp add: generate_products_closed)
  have pr: "price (fst (generate_products n g) ! k)
           = py_round (fst (uniform 10 500 (sdrop (8 * k + 2) g))) 2"
    unfolding nth make_product_price by (simp add: add.commute del: sdrop.simps(2))
  have co: "cost (fst (generate_products n g) ! k)
           = py_round (fst (uniform 5 250 (sdrop (8 * k + 3) g))) 2"
    unfolding nth make_product_cost by (simp add: add.commute del: sdrop.simps(2))
  have ra: "product.rating (fst (generate_products n g) ! k)
           = py_round (fst (uniform 3 5 (sdrop (8 * k + 5) g))) 1"
    unfolding nth make_product_rating by (simp add: add.commute del: sdrop.simps(2))
  have prb: "of_int 1000 / 10 ^ 2 \<le> py_round (fst (uniform 10 500 (sdrop (8 * k + 2) g))) 2
      \<and> py_round (fst (uniform 10 500 (sdrop (8 * k + 2) g))) 2 \<le> of_int 50000 / 10 ^ 2"
    by (rule py_round_between) (use uniform_range [of 10 500] in simp_all)
  have cob: "of_int 500 / 10 ^ 2 \<le> py_round (fst (uniform 5 250 (sdrop (8 * k + 3) g))) 2
      \<and> py_round (fst (uniform 5 250 (sdrop (8 * k + 3) g))) 2 \<le> of_int 25000 / 10 ^ 2"
    by (rule py_round_between) (use uniform_range [of 5 250] in simp_all)
  have rab: "of_int 30 / 10 ^ 1 \<le> py_round (fst (uniform 3 5 (sdrop (8 * k + 5) g))) 1
      \<and> py_round (fst (uniform 3 5 (sdrop (8 * k + 5) g))) 1 \<le> of_int 50 / 10 ^ 1"
    by (rule py_round_between) (use uniform_range [of 3 5] in simp_all)
  show ?thesis using pr co ra prb cob rab by simp
qed

theorem product_numeric_fields_witness:
  "0 < length (fst (generate_products 1 ([0, 0, 0, 2 ^ 52, 0, 2 ^ 49] @- sconst 0)))
   \<and> price (fst (generate_products 1 ([0, 0, 0, 2 ^ 52, 0, 2 ^ 49] @- sconst 0)) ! 0) = 10
   \<and> cost (fst (generate_products 1 ([0, 0, 0, 2 ^ 52, 0, 2 ^ 49] @- sconst 0)) ! 0) = 255 / 2
   \<and> product.rating (fst (generate_products 1 ([0, 0, 0, 2 ^ 52, 0, 2 ^ 49] @- sconst 0)) ! 0) = 31 / 10"
proof -
  have h: "0 < length (fst (generate_products 1 ([0, 0, 0, 2 ^ 52, 0, 2 ^ 49] @- sconst 0)))"
    by (simp add: generate_products_closed)
  have s: "fst (uniform 10 500 (sdrop (8 * 0 + 2) ([0, 0, 0, 2 ^ 52, 0, 2 ^ 49] @- sconst 0))) = 10"
     "fst (uniform 5 250 (sdrop (8 * 0 + 3) ([0, 0, 0, 2 ^ 52, 0, 2 ^ 49] @- sconst 0))) = 255 / 2"
     "fst (uniform 3 5 (sdrop (8 * 0 + 5) ([0, 0, 0, 2 ^ 52, 0, 2 ^ 49] @- sconst 0))) = 25 / 8"
    by (simp_all add: sdrop_stl uniform_def py_random_def)
  have r: "py_round 10 2 = 10" "py_round (255 / 2) 2 = 255 / 2" "py_round (25 / 8) 1 = 31 / 10"
    by (simp_all add: py_round_def round_half_even_def Let_def)
  show ?thesis using h product_numeric_fields [OF h] unfolding s r by blast
qed

text \<open>
  The rating is not a two-decimal rounding: the sample \<open>3.125\<close> gives the rating
  \<open>3.1\<close>, while its two-decimal rounding is \<open>3.12\<close>.
\<close>

theorem product_rating_two_decimals_counterexample:
  "product.rating (fst (generate_products 1 ([0, 0, 0, 2 ^ 52, 0, 2 ^ 49] @- sconst 0)) ! 0)
     \<noteq> py_round (fst (uniform 3 5 (sdrop 5 ([0, 0, 0, 2 ^ 52, 0, 2 ^ 49] @- sconst 0)))) 2"
proof -
  have s: "fst (uniform 3 5 (sdrop 5 ([0, 0, 0, 2 ^ 52, 0, 2 ^ 49] @- sconst 0))) = 25 / 8"
    by (simp add: sdrop_stl uniform_def py_random_def)
  have "fst (generate_products 1 ([0, 0, 0, 2 ^ 52, 0, 2 ^ 49] @- sconst 0)) ! 0
      = fst (make_product 1 ([0, 0, 0, 2 ^ 52, 0, 2 ^ 49] @- sconst 0))"
    by (simp add: generate_products_closed)
  then have r: "product.rating (fst (generate_products 1 ([0, 0, 0, 2 ^ 52, 0, 2 ^ 49] @- sconst 0)) ! 0)
      = py_round (25 / 8) 1"
    by (simp only: make_product_rating s)
  have r1: "py_round (25 / 8) 1 = 31 / 10"
    by (simp add: py_round_def round_half_even_def Let_def)
  have r2: "py_round (25 / 8) 2 = 78 / 25"
    by (simp add: py_round_def round_half_even_def Let_def)
  show ?thesis unfolding r s r1 r2 by simp
qed

subsection \<open>Orders: items and totals\<close>

lemma choice_Inr:
  assumes "choice xs g = Inr (x, g')"
  shows "x \<in> set xs" and "g' = stl g" and "xs \<noteq> []"
  using assms by (auto simp: choice_def split: if_splits)

lemma choice_nonempty: "xs \<noteq> [] \<Longrightarrow> \<exists>x. choice xs g = Inr (x, stl g) \<and> x \<in> set xs"
  by (simp add: choice_def)

lemma items_loop_invariant:
  assumes "items_loop k ps its t g = Inr (its', t', g')"
    and "t = (\<Sum>it\<leftarrow>its. unit_price it * of_int (quantity it))"
    and "\<forall>it\<in>set its. item_total it = py_round (unit_price it * of_int (quantity it)) 2
           \<and> 1 \<le> quantity it \<and> quantity it \<le> 3
           \<and> (\<exists>p\<in>set ps. unit_price it = price p \<and> order_item.product_id it = product.product_id p)"
  shows "t' = (\<Sum>it\<leftarrow>its'. unit_price it * of_int (quantity it))
       \<and> (\<forall>it\<in>set its'. item_total it = py_round (unit_price it * of_int (quantity it)) 2
           \<and> 1 \<le> quantity it \<and> quantity it \<le> 3
           \<and> (\<exists>p\<in>set ps. unit_price it = price p \<and> order_item.product_id it = product.product_id p))
       \<and> length its' = length its + k"
  using assms
proof (induction k arbitrary: its t g)
  case 0
  then show ?case by auto
next
  case (Suc k)
  from Suc.prems(1) obtain p g1 where ch: "choice ps g = Inr (p, g1)"
    by (auto split: sum.splits)
  obtain q g2 where ri: "randint 1 3 g1 = (q, g2)" by fastforce
  define it where "it = \<lparr> order_item.product_id = product.product_id p,
                              order_item.product_name = product.name p,
                              order_item.category = product.category p,
                              quantity = q, unit_price = price p,
                              item_total = py_round (price p * of_int q) 2 \<rparr>"
  have step: "items_loop k ps (its @ [it]) (t + price p * of_int q) g2 = Inr (its', t', g')"
    using Suc.prems(1) ch ri by (simp add: it_def Let_def)
  have pin: "p \<in> set ps" using ch by (rule choice_Inr)
  have q: "1 \<le> q" "q \<le> 3" using randint_range [of 1 3 g1] ri by simp_all
  have a: "t + price p * of_int q = (\<Sum>it\<leftarrow>its @ [it]. unit_price it * of_int (quantity it))"
    using Suc.prems(2) by (simp add: it_def)
  have b: "\<forall>it\<in>set (its @ [it]). item_total it = py_round (unit_price it * of_int (quantity it)) 2
           \<and> 1 \<le> quantity it \<and> quantity it \<le> 3
           \<and> (\<exists>p\<in>set ps. unit_price it = price p \<and> order_item.product_id it = product.product_id p)"
    using Suc.prems(3) pin q by (auto simp: it_def)
  from Suc.IH [OF step a b] show ?case by simp
qed

lemma make_order_fields:
  assumes "make_order i cs ps g = Inr (ord, g')"
  shows "\<exists>t u. t = (\<Sum>it\<leftarrow>items ord. unit_price it * of_int (quantity it))
       \<and> total_amount ord = py_round t 2
       \<and> tax ord = py_round (t * (8 / 100)) 2
       \<and> 5 \<le> u \<and> u \<le> 15 \<and> shipping_cost ord = py_round u 2
       \<and> (\<forall>it\<in>set (items ord).
             item_total it = py_round (unit_price it * of_int (quantity it)) 2
             \<and> 1 \<le> quantity it \<and> quantity it \<le> 3
           \<and> (\<exists>p\<in>set ps. unit_price it = price p \<and> order_item.product_id it = product.product_id p))
       \<and> 1 \<le> length (items ord) \<and> length (items ord) \<le> 5
       \<and> order.order_id ord = CHR ''O'' # format_0d 6 i
       \<and> order.id_field ord = CHR ''O'' # format_0d 6 i"
proof -
  from assms obtain c g1 where ch: "choice cs g = Inr (c, g1)"
    by (auto simp: make_order_def split: sum.splits)
  obtain dd g2 where r1: "randint 0 180 g1 = (dd, g2)" by fastforce
  obtain ni g3 where r2: "randint 1 5 g2 = (ni, g3)" by fastforce
  from assms ch r1 r2 obtain its t g4 where il: "items_loop (nat ni) ps [] 0 g3 = Inr (its, t, g4)"
    by (auto simp: make_order_def split: sum.splits)
  obtain sh g5 where un: "uniform 5 15 g4 = (sh, g5)" by fastforce
  have ni: "1 \<le> ni" "ni \<le> 5" using randint_range [of 1 5 g2] r2 by simp_all
  have sh: "5 \<le> sh" "sh \<le> 15" using uniform_range [of 5 15 g4] un by simp_all
  have inv: "t = (\<Sum>it\<leftarrow>its. unit_price it * of_int (quantity it))
       \<and> (\<forall>it\<in>set its. item_total it = py_round (unit_price it * of_int (quantity it)) 2
           \<and> 1 \<le> quantity it \<and> quantity it \<le> 3
           \<and> (\<exists>p\<in>set ps. unit_price it = price p \<and> order_item.product_id it = product.product_id p))
       \<and> length its = length ([] :: order_item list) + nat ni"
    by (rule items_loop_invariant [OF il]) simp_all
  have f: "items ord = its" "total_amount ord = py_round t 2" "tax ord = py_round (t * (8 / 100)) 2"
    "shipping_cost ord = py_round sh 2" "order.order_id ord = CHR ''O'' # format_0d 6 i"
    "order.id_field ord = CHR ''O'' # format_0d 6 i"
    using assms ch r1 r2 il un by (auto simp: make_order_def Let_def)
  have len: "1 \<le> length its" "length its \<le> 5" using inv ni by simp_all
  show ?thesis using f inv sh len by blast
qed

lemma orders_loop_set:
  assumes "orders_loop js cs ps acc g = Inr (ords, g')"
  shows "set ords \<subseteq> set acc \<union> {ord. \<exists>i g1 g2. make_order i cs ps g1 = Inr (ord, g2)}"
  using assms
proof (induction js arbitrary: acc g)
  case Nil
  then show ?case by simp
next
  case (Cons j js)
  from Cons.prems obtain ord g1 where mo: "make_order j cs ps g = Inr (ord, g1)"
    by (auto split: sum.splits)
  have step: "orders_loop js cs ps (acc @ [ord]) g1 = Inr (ords, g')"
    using Cons.prems mo by simp
  have ih: "set ords \<subseteq> set (acc @ [ord])
      \<union> {ord. \<exists>i g1 g2. make_order i cs ps g1 = Inr (ord, g2)}"
    by (rule Cons.IH [OF step])
  have oin: "ord \<in> {ord. \<exists>i g1 g2. make_order i cs ps g1 = Inr (ord, g2)}"
    using mo by auto
  have "set (acc @ [ord]) \<subseteq> set acc
      \<union> {ord. \<exists>i g1 g2. make_order i cs ps g1 = Inr (ord, g2)}"
    using oin by simp
  then show ?case using ih by blast
qed

lemma generated_order_made:
  assumes "generate_orders cs ps n g = Inr (ords, g')" "ord \<in> set ords"
  shows "\<exists>i g1 g2. make_order i cs ps g1 = Inr (ord, g2)"
proof -
  have "orders_loop [1..n] cs ps [] g = Inr (ords, g')"
    using assms(1) by (simp add: generate_orders_def)
  then have "set ords \<subseteq> set []
      \<union> {ord. \<exists>i g1 g2. make_order i cs ps g1 = Inr (ord, g2)}"
    by (rule orders_loop_set)
  then show ?thesis using assms(2) by auto
qed

lemma sum_list_diff_bound:
  fixes f h :: "'a \<Rightarrow> real"
  assumes "\<forall>x\<in>set xs. \<bar>f x - h x\<bar> \<le> e"
  shows "\<bar>(\<Sum>x\<leftarrow>xs. f x) - (\<Sum>x\<leftarrow>xs. h x)\<bar> \<le> real (length xs) * e"
  using assms
proof (induction xs)
  case Nil
  then show ?case by simp
next
  case (Cons x xs)
  have "\<bar>f x - h x\<bar> \<le> e" using Cons.prems by simp
  moreover have "\<bar>(\<Sum>x\<leftarrow>xs. f x) - (\<Sum>x\<leftarrow>xs. h x)\<bar> \<le> real (length xs) * e"
    using Cons by simp
  ultimately show ?case by (simp add: algebra_simps)
qed

text \<open>
  Claim C1. For every order produced by \<^verbatim>\<open>generate_orders\<close>, \<^verbatim>\<open>total_amount\<close> differs from
  the sum of the \<^verbatim>\<open>item_total\<close> of its items by at most half a cent per rounding (one
  rounding per item and one for the total; an order has at most five items, so at most
  three cents), and \<^verbatim>\<open>tax\<close> differs from 8% of \<^verbatim>\<open>total_amount\<close> by at most half a cent for
  its own rounding plus 8% of half a cent for the rounding of the total.
\<close>

theorem order_total_and_tax_within_rounding:
  assumes "generate_orders customers products n g = Inr (orders, g')"
    and "ord \<in> set orders"
  shows "\<bar>total_amount ord - (\<Sum>it\<leftarrow>items ord. item_total it)\<bar>
           \<le> (real (length (items ord)) + 1) * (1 / 200)
       \<and> \<bar>total_amount ord - (\<Sum>it\<leftarrow>items ord. item_total it)\<bar> \<le> 3 / 100
       \<and> \<bar>tax ord - (8 / 100) * total_amount ord\<bar> \<le> 1 / 200 + (8 / 100) * (1 / 200)"
proof -
  from generated_order_made [OF assms] obtain i g1 g2
    where mo: "make_order i customers products g1 = Inr (ord, g2)" by blast
  from make_order_fields [OF mo] obtain t where
    t: "t = (\<Sum>it\<leftarrow>items ord. unit_price it * of_int (quantity it))"
    and ta: "total_amount ord = py_round t 2"
    and tx: "tax ord = py_round (t * (8 / 100)) 2"
    and its: "\<forall>it\<in>set (items ord). item_total it = py_round (unit_price it * of_int (quantity it)) 2"
    and len: "length (items ord) \<le> 5"
    by blast
  have e1: "\<bar>total_amount ord - t\<bar> \<le> 1 / 200"
    using py_round_error [of t 2] ta by simp
  have "\<forall>it\<in>set (items ord). \<bar>unit_price it * of_int (quantity it) - item_total it\<bar> \<le> 1 / 200"
  proof
    fix it assume "it \<in> set (items ord)"
    then have "item_total it = py_round (unit_price it * of_int (quantity it)) 2" using its by blast
    then show "\<bar>unit_price it * of_int (quantity it) - item_total it\<bar> \<le> 1 / 200"
      using py_round_error [of "unit_price it * of_int (quantity it)" 2]
      by (simp add: abs_minus_commute)
  qed
  then have e2: "\<bar>t - (\<Sum>it\<leftarrow>items ord. item_total it)\<bar> \<le> real (length (items ord)) * (1 / 200)"
    unfolding t by (rule sum_list_diff_bound)
  have "\<bar>total_amount ord - (\<Sum>it\<leftarrow>items ord. item_total it)\<bar>
      \<le> \<bar>total_amount ord - t\<bar> + \<bar>t - (\<Sum>it\<leftarrow>items ord. item_total it)\<bar>"
    by linarith
  then have a0: "\<bar>total_amount ord - (\<Sum>it\<leftarrow>items ord. item_total it)\<bar>
      \<le> 1 / 200 + real (length (items ord)) * (1 / 200)"
    using e1 e2 by linarith
  then have a: "\<bar>total_amount ord - (\<Sum>it\<leftarrow>items ord. item_total it)\<bar>
           \<le> (real (length (items ord)) + 1) * (1 / 200)"
    by (simp add: algebra_simps)
  have "real (length (items ord)) \<le> 5" using len by simp
  then have b: "\<bar>total_amount ord - (\<Sum>it\<leftarrow>items ord. item_total it)\<bar> \<le> 3 / 100"
    using a0 by linarith
  have e3: "\<bar>tax ord - t * (8 / 100)\<bar> \<le> 1 / 200"
    using py_round_error [of "t * (8 / 100)" 2] tx by simp
  have "\<bar>t * (8 / 100) - (8 / 100) * total_amount ord\<bar> = (8 / 100) * \<bar>total_amount ord - t\<bar>"
    by (simp add: abs_if)
  then have e4: "\<bar>t * (8 / 100) - (8 / 100) * total_amount ord\<bar> \<le> (8 / 100) * (1 / 200)"
    using e1 by simp
  have "\<bar>tax ord - (8 / 100) * total_amount ord\<bar>
      \<le> \<bar>tax ord - t * (8 / 100)\<bar> + \<bar>t * (8 / 100) - (8 / 100) * total_amount ord\<bar>"
    by linarith
  then have c: "\<bar>tax ord - (8 / 100) * total_amount ord\<bar> \<le> 1 / 200 + (8 / 100) * (1 / 200)"
    using e3 e4 by linarith
  show ?thesis using a b c by blast
qed

lemma items_loop_unfold:
  "items_loop k products its running_total g =
     (if k = 0 then Inr (its, running_total, g)
      else (case choice products g of
        Inl e \<Rightarrow> Inl e
      | Inr (p, g1) \<Rightarrow>
          (case randint 1 3 g1 of (q, g2) \<Rightarrow>
             (let it_total = price p * of_int q
              in items_loop (k - 1) products
                   (its @ [\<lparr> order_item.product_id = product.product_id p,
                              order_item.product_name = product.name p,
                              order_item.category = product.category p,
                              quantity = q, unit_price = price p,
                              item_total = py_round it_total 2 \<rparr>])
                   (running_total + it_total) g2))))"
  by (cases k) (auto simp: Let_def split: sum.splits prod.splits)

lemma sample_products_eq: "sample_products = [fst (make_product 1 (sconst 0))]"
  by (simp add: sample_products_def generate_products_closed)

lemma sample_price: "price (fst (make_product 1 (sconst 0))) = 10"
  by (simp add: make_product_price uniform_def py_random_def py_round_def round_half_even_def)

lemma sample_customers_eq: "sample_customers = [fst (make_customer 1 (sconst 0))]"
  by (simp add: sample_customers_def generate_customers_def upto.simps split: prod.splits)

lemma sample_orders_run:
  "generate_orders sample_customers sample_products 1 sample_orders_rng
     = Inr (sample_orders, sconst 0)"
  by (simp add: sample_orders_def sample_orders_rng_def sample_products_eq sample_customers_eq
      sample_price generate_orders_def upto.simps make_order_def choice_def randint_def
      uniform_def py_random_def Let_def items_loop_unfold py_round_def round_half_even_def)

lemma sample_orders_values:
  "sample_orders \<noteq> []"
  "length (items (hd sample_orders)) = 2"
  "total_amount (hd sample_orders) = 30"
  "(\<Sum>it\<leftarrow>items (hd sample_orders). item_total it) = 30"
  "tax (hd sample_orders) = 12 / 5"
  "shipping_cost (hd sample_orders) = 5"
  by (simp_all add: sample_orders_def sample_orders_rng_def sample_products_eq sample_customers_eq
      sample_price generate_orders_def upto.simps make_order_def choice_def randint_def
      uniform_def py_random_def Let_def items_loop_unfold py_round_def round_half_even_def)

theorem order_total_and_tax_within_rounding_witness:
  "generate_orders sample_customers sample_products 1 sample_orders_rng
     = Inr (sample_orders, sconst 0)
   \<and> hd sample_orders \<in> set sample_orders
   \<and> \<bar>total_amount (hd sample_orders) - 30\<bar> \<le> 3 / 100
   \<and> \<bar>tax (hd sample_orders) - (8 / 100) * total_amount (hd sample_orders)\<bar>
        \<le> 1 / 200 + (8 / 100) * (1 / 200)"
proof -
  have h: "hd sample_orders \<in> set sample_orders"
    using sample_orders_values(1) by simp
  show ?thesis
    using order_total_and_tax_within_rounding [OF sample_orders_run h] sample_orders_run h
    unfolding sample_orders_values(4) by blast
qed

text \<open>
  Claim C2, as amended. For every order produced by \<^verbatim>\<open>generate_orders\<close>, \<^verbatim>\<open>total_amount\<close>
  is the sum of the \<^verbatim>\<open>item_total\<close> of its items, within the tolerance of the roundings to
  two decimals, and nothing else: tax and shipping cost are not part of it. They are
  separate fields set when the order is created, the shipping cost lying in \<open>[5, 15]\<close>
  and the tax being 8% of \<^verbatim>\<open>total_amount\<close> within the rounding tolerance. The sum of item
  totals, tax and shipping cost therefore exceeds \<^verbatim>\<open>total_amount\<close> by at least
  \<open>4.9646\<close> plus 8% of \<^verbatim>\<open>total_amount\<close>; in particular a non-negative \<^verbatim>\<open>total_amount\<close>
  is strictly less than that sum.
\<close>

theorem order_total_is_item_sum_only:
  assumes "generate_orders customers products n g = Inr (orders, g')"
    and "ord \<in> set orders"
  shows "\<bar>total_amount ord - (\<Sum>it\<leftarrow>items ord. item_total it)\<bar> \<le> 3 / 100
       \<and> \<bar>tax ord - (8 / 100) * total_amount ord\<bar> \<le> 1 / 200 + (8 / 100) * (1 / 200)
       \<and> 5 \<le> shipping_cost ord \<and> shipping_cost ord \<le> 15
       \<and> total_amount ord + (5 - 3 / 100 - 27 / 5000) + (8 / 100) * total_amount ord
            \<le> (\<Sum>it\<leftarrow>items ord. item_total it) + tax ord + shipping_cost ord
       \<and> (0 \<le> total_amount ord \<longrightarrow>
            total_amount ord
              < (\<Sum>it\<leftarrow>items ord. item_total it) + tax ord + shipping_cost ord)"
proof -
  from generated_order_made [OF assms] obtain i g1 g2
    where mo: "make_order i customers products g1 = Inr (ord, g2)" by blast
  from make_order_fields [OF mo] obtain t u where
    t: "t = (\<Sum>it\<leftarrow>items ord. unit_price it * of_int (quantity it))"
    and ta: "total_amount ord = py_round t 2"
    and tx: "tax ord = py_round (t * (8 / 100)) 2"
    and u: "5 \<le> u" "u \<le> 15" "shipping_cost ord = py_round u 2"
    and its: "\<forall>it\<in>set (items ord).
                item_total it = py_round (unit_price it * of_int (quantity it)) 2"
    and len: "length (items ord) \<le> 5"
    by blast
  have e1: "\<bar>total_amount ord - t\<bar> \<le> 1 / 200"
    using py_round_error [of t 2] ta by simp
  have "\<forall>it\<in>set (items ord). \<bar>unit_price it * of_int (quantity it) - item_total it\<bar> \<le> 1 / 200"
  proof
    fix it assume "it \<in> set (items ord)"
    then have "item_total it = py_round (unit_price it * of_int (quantity it)) 2" using its by blast
    then show "\<bar>unit_price it * of_int (quantity it) - item_total it\<bar> \<le> 1 / 200"
      using py_round_error [of "unit_price it * of_int (quantity it)" 2]
      by (simp add: abs_minus_commute)
  qed
  then have e2: "\<bar>t - (\<Sum>it\<leftarrow>items ord. item_total it)\<bar> \<le> real (length (items ord)) * (1 / 200)"
    unfolding t by (rule sum_list_diff_bound)
  have "real (length (items ord)) \<le> 5" using len by simp
  then have e2': "\<bar>t - (\<Sum>it\<leftarrow>items ord. item_total it)\<bar> \<le> 5 / 200"
    using e2 by linarith
  have "\<bar>total_amount ord - (\<Sum>it\<leftarrow>items ord. item_total it)\<bar>
      \<le> \<bar>total_amount ord - t\<bar> + \<bar>t - (\<Sum>it\<leftarrow>items ord. item_total it)\<bar>"
    by linarith
  then have a: "\<bar>total_amount ord - (\<Sum>it\<leftarrow>items ord. item_total it)\<bar> \<le> 3 / 100"
    using e1 e2' by linarith
  have e3: "\<bar>tax ord - t * (8 / 100)\<bar> \<le> 1 / 200"
    using py_round_error [of "t * (8 / 100)" 2] tx by simp
  have "\<bar>t * (8 / 100) - (8 / 100) * total_amount ord\<bar> = (8 / 100) * \<bar>total_amount ord - t\<bar>"
    by (simp add: abs_if)
  then have e4: "\<bar>t * (8 / 100) - (8 / 100) * total_amount ord\<bar> \<le> (8 / 100) * (1 / 200)"
    using e1 by simp
  have "\<bar>tax ord - (8 / 100) * total_amount ord\<bar>
      \<le> \<bar>tax ord - t * (8 / 100)\<bar> + \<bar>t * (8 / 100) - (8 / 100) * total_amount ord\<bar>"
    by linarith
  then have b: "\<bar>tax ord - (8 / 100) * total_amount ord\<bar> \<le> 1 / 200 + (8 / 100) * (1 / 200)"
    using e3 e4 by linarith
  have "of_int 500 / 10 ^ 2 \<le> py_round u 2 \<and> py_round u 2 \<le> of_int 1500 / 10 ^ 2"
    by (rule py_round_between) (use u in simp_all)
  then have c: "5 \<le> shipping_cost ord" "shipping_cost ord \<le> 15" using u(3) by simp_all
  have d: "total_amount ord + (5 - 3 / 100 - 27 / 5000) + (8 / 100) * total_amount ord
            \<le> (\<Sum>it\<leftarrow>items ord. item_total it) + tax ord + shipping_cost ord"
    using a b c(1) by linarith
  have e: "total_amount ord < (\<Sum>it\<leftarrow>items ord. item_total it) + tax ord + shipping_cost ord"
    if "0 \<le> total_amount ord"
    using d that by linarith
  show ?thesis using a b c d e by blast
qed

theorem order_total_is_item_sum_only_witness:
  "generate_orders sample_customers sample_products 1 sample_orders_rng
     = Inr (sample_orders, sconst 0)
   \<and> hd sample_orders \<in> set sample_orders
   \<and> 0 \<le> total_amount (hd sample_orders)
   \<and> total_amount (hd sample_orders) = 30
   \<and> \<bar>total_amount (hd sample_orders) - 30\<bar> \<le> 3 / 100
   \<and> total_amount (hd sample_orders) < 30 + tax (hd sample_orders) + shipping_cost (hd sample_orders)"
proof -
  have h: "hd sample_orders \<in> set sample_orders"
    using sample_orders_values(1) by simp
  have p: "0 \<le> total_amount (hd sample_orders)" "total_amount (hd sample_orders) = 30"
    by (simp_all add: sample_orders_values(3))
  show ?thesis
    using order_total_is_item_sum_only [OF sample_orders_run h] sample_orders_run h p
    unfolding sample_orders_values(4) by blast
qed

text \<open>
  The sample order has a total of 30.00, item totals that sum to 30.00, a tax of 2.40 and
  a shipping cost of 5.00: its total is not the sum of item totals, tax and shipping.
\<close>

theorem order_total_plus_tax_shipping_counterexample:
  "total_amount (hd sample_orders)
     \<noteq> (\<Sum>it\<leftarrow>items (hd sample_orders). item_total it)
         + tax (hd sample_orders) + shipping_cost (hd sample_orders)"
  unfolding sample_orders_values by simp

subsection \<open>Identifiers: decimal formatting\<close>

lemma digit_char_cases:
  assumes "d < 10"
  shows "is_digit (digit_char d) \<and> of_char (digit_char d) = (48::nat) + d"
proof -
  from assms have "d = 0 \<or> d = 1 \<or> d = 2 \<or> d = 3 \<or> d = 4 \<or> d = 5 \<or> d = 6 \<or> d = 7 \<or> d = 8 \<or> d = 9"
    by presburger
  then show ?thesis by (auto simp: digit_char_def is_digit_def)
qed

lemma digits10_digits: "list_all is_digit (digits10 n)"
proof (induction n rule: digits10.induct)
  case (1 n)
  show ?case
  proof (cases "n < 10")
    case True
    then show ?thesis using digit_char_cases [of n] by (simp add: digits10.simps [of n])
  next
    case False
    have "n mod 10 < 10" by simp
    then have "is_digit (digit_char (n mod 10))" using digit_char_cases by blast
    then show ?thesis using False 1 by (simp add: digits10.simps [of n])
  qed
qed

lemma digits10_value:
  "foldl (\<lambda>a c. 10 * a + (of_char c - 48)) (0::nat) (digits10 n) = n"
proof (induction n rule: digits10.induct)
  case (1 n)
  show ?case
  proof (cases "n < 10")
    case True
    then show ?thesis using digit_char_cases [of n] by (simp add: digits10.simps [of n])
  next
    case False
    have "n mod 10 < 10" by simp
    then have "of_char (digit_char (n mod 10)) = (48::nat) + n mod 10"
      using digit_char_cases by blast
    then show ?thesis using False 1 by (simp add: digits10.simps [of n])
  qed
qed

lemma zeros_value:
  "foldl (\<lambda>a c. 10 * a + (of_char c - 48)) (0::nat) (replicate k CHR ''0'') = 0"
  by (induction k) simp_all

lemma zfill_value:
  "foldl (\<lambda>a c. 10 * a + (of_char c - 48)) (0::nat) (zfill w (digits10 n)) = n"
  by (simp add: zfill_def zeros_value digits10_value)

lemma length_digits10: "0 < w \<Longrightarrow> n < 10 ^ w \<Longrightarrow> length (digits10 n) \<le> w"
proof (induction n arbitrary: w rule: digits10.induct)
  case (1 n)
  show ?case
  proof (cases "n < 10")
    case True
    then show ?thesis using "1.prems" by (simp add: digits10.simps [of n])
  next
    case False
    obtain v where w: "w = Suc v" using "1.prems"(1) by (cases w) auto
    have v: "0 < v"
    proof (rule ccontr)
      assume "\<not> 0 < v"
      then have "w = 1" using w by simp
      then show False using "1.prems"(2) False by simp
    qed
    have "n div 10 < 10 ^ v" using "1.prems"(2) w by (simp add: less_mult_imp_div_less mult.commute)
    then have "length (digits10 (n div 10)) \<le> v" using "1.IH" [OF False v] by simp
    then show ?thesis using False w by (simp add: digits10.simps [of n])
  qed
qed

lemma format_0d_nonneg: "0 \<le> i \<Longrightarrow> format_0d w i = zfill w (digits10 (nat i))"
  by (simp add: format_0d_def)

lemma format_0d_inj:
  assumes "0 \<le> i" "0 \<le> j" "format_0d w i = format_0d w j"
  shows "i = j"
proof -
  have "zfill w (digits10 (nat i)) = zfill w (digits10 (nat j))"
    using assms by (simp add: format_0d_nonneg)
  then have "foldl (\<lambda>a c. 10 * a + (of_char c - 48)) (0::nat) (zfill w (digits10 (nat i)))
      = foldl (\<lambda>a c. 10 * a + (of_char c - 48)) (0::nat) (zfill w (digits10 (nat j)))"
    by simp
  then have "nat i = nat j" by (simp only: zfill_value)
  then show ?thesis using assms by simp
qed

lemma format_0d_fixed_width:
  assumes "0 \<le> i" "i < 10 ^ w" "0 < w"
  shows "fixed_width_id letter w (letter # format_0d w i)"
proof -
  have "nat i < 10 ^ w" using assms by (simp add: nat_less_iff)
  then have "length (digits10 (nat i)) \<le> w" using assms(3) length_digits10 by blast
  then have "length (zfill w (digits10 (nat i))) = w" by (simp add: zfill_def)
  moreover have "is_digit CHR ''0''" by (simp add: is_digit_def)
  then have "list_all is_digit (zfill w (digits10 (nat i)))"
    using digits10_digits [of "nat i"] by (auto simp: zfill_def list_all_iff)
  ultimately show ?thesis using assms(1) by (simp add: fixed_width_id_def format_0d_nonneg)
qed

lemma distinct_ids:
  "distinct (map (\<lambda>i. letter # format_0d w i) [1..n])"
proof -
  have "inj_on (\<lambda>i. letter # format_0d w i) (set [1..n])"
    by (rule inj_onI) (auto dest: format_0d_inj [rotated 2])
  then show ?thesis by (simp add: distinct_map)
qed

lemma replicate_unfold: "replicate k x = (if k = 0 then [] else x # replicate (k - 1) x)"
  by (cases k) simp_all

subsection \<open>Identifiers of the generated collections\<close>

lemma products_loop_ids:
  "map product.product_id (fst (products_loop js acc g))
     = map product.product_id acc @ map (\<lambda>i. CHR ''P'' # format_0d 4 i) js
   \<and> map product.id_field (fst (products_loop js acc g))
     = map product.id_field acc @ map (\<lambda>i. CHR ''P'' # format_0d 4 i) js"
proof (induction js arbitrary: acc g)
  case Nil
  then show ?case by simp
next
  case (Cons j js)
  obtain p g1 where mp: "make_product j g = (p, g1)" by fastforce
  have p: "product.product_id p = CHR ''P'' # format_0d 4 j"
    "product.id_field p = CHR ''P'' # format_0d 4 j"
    using make_product_id [of j g] mp by simp_all
  have "products_loop (j # js) acc g = products_loop js (acc @ [p]) g1" using mp by simp
  then show ?case using Cons.IH [of "acc @ [p]" g1] p by simp
qed

lemma make_customer_id:
  "customer.customer_id (fst (make_customer i g)) = CHR ''C'' # format_0d 5 i"
  "customer.id_field (fst (make_customer i g)) = CHR ''C'' # format_0d 5 i"
  by (simp_all add: make_customer_def Let_def split: prod.splits)

lemma customers_loop_ids:
  "map customer.customer_id (fst (customers_loop js acc g))
     = map customer.customer_id acc @ map (\<lambda>i. CHR ''C'' # format_0d 5 i) js
   \<and> map customer.id_field (fst (customers_loop js acc g))
     = map customer.id_field acc @ map (\<lambda>i. CHR ''C'' # format_0d 5 i) js"
proof (induction js arbitrary: acc g)
  case Nil
  then show ?case by simp
next
  case (Cons j js)
  obtain c g1 where mc: "make_customer j g = (c, g1)" by fastforce
  have c: "customer.customer_id c = CHR ''C'' # format_0d 5 j"
    "customer.id_field c = CHR ''C'' # format_0d 5 j"
    using make_customer_id [of j g] mc by simp_all
  have "customers_loop (j # js) acc g = customers_loop js (acc @ [c]) g1" using mc by simp
  then show ?case using Cons.IH [of "acc @ [c]" g1] c by simp
qed

lemma orders_loop_ids:
  assumes "orders_loop js cs ps acc g = Inr (ords, g')"
  shows "map order.order_id ords
           = map order.order_id acc @ map (\<lambda>i. CHR ''O'' # format_0d 6 i) js
       \<and> map order.id_field ords
           = map order.id_field acc @ map (\<lambda>i. CHR ''O'' # format_0d 6 i) js"
  using assms
proof (induction js arbitrary: acc g)
  case Nil
  then show ?case by simp
next
  case (Cons j js)
  from Cons.prems obtain ord g1 where mo: "make_order j cs ps g = Inr (ord, g1)"
    by (auto split: sum.splits)
  have step: "orders_loop js cs ps (acc @ [ord]) g1 = Inr (ords, g')"
    using Cons.prems mo by simp
  have "order.order_id ord = CHR ''O'' # format_0d 6 j"
    "order.id_field ord = CHR ''O'' # format_0d 6 j"
    using make_order_fields [OF mo] by blast+
  then show ?case using Cons.IH [OF step] by simp
qed

subsection \<open>Reviews\<close>

lemma make_review_Some:
  assumes "make_review i orders g = Inr (Some r, g')"
  shows "review_id r = CHR ''R'' # format_0d 5 i"
    and "review.id_field r = CHR ''R'' # format_0d 5 i"
    and "\<exists>ord\<in>set orders. review.order_id r = order.order_id ord
           \<and> review.customer_id r = order.customer_id ord
           \<and> (\<exists>it\<in>set (items ord). review.product_id r = order_item.product_id it)"
proof -
  from assms obtain ord g1 where ch: "choice orders g = Inr (ord, g1)"
    by (auto simp: make_review_def split: sum.splits)
  have oin: "ord \<in> set orders" using ch by (rule choice_Inr)
  have ne: "items ord \<noteq> []" using assms ch by (auto simp: make_review_def split: if_splits)
  from assms ch ne obtain it g2 where ci: "choice (items ord) g1 = Inr (it, g2)"
    by (auto simp: make_review_def split: sum.splits)
  have iin: "it \<in> set (items ord)" using ci by (rule choice_Inr)
  have f: "review_id r = CHR ''R'' # format_0d 5 i" "review.id_field r = CHR ''R'' # format_0d 5 i"
    "review.order_id r = order.order_id ord" "review.customer_id r = order.customer_id ord"
    "review.product_id r = order_item.product_id it"
    using assms ch ne ci by (auto simp: make_review_def split: prod.splits)
  show "review_id r = CHR ''R'' # format_0d 5 i" by (rule f)
  show "review.id_field r = CHR ''R'' # format_0d 5 i" by (rule f)
  show "\<exists>ord\<in>set orders. review.order_id r = order.order_id ord
           \<and> review.customer_id r = order.customer_id ord
           \<and> (\<exists>it\<in>set (items ord). review.product_id r = order_item.product_id it)"
    using oin iin f by blast
qed

lemma make_review_None:
  assumes "make_review i orders g = Inr (None, g')"
  shows "\<exists>ord\<in>set orders. items ord = []"
proof -
  from assms obtain ord g1 where ch: "choice orders g = Inr (ord, g1)"
    by (auto simp: make_review_def split: sum.splits)
  have oin: "ord \<in> set orders" using ch by (rule choice_Inr)
  have "items ord = []"
    using assms ch by (auto simp: make_review_def choice_def split: if_splits prod.splits)
  then show ?thesis using oin by blast
qed

lemma make_review_total:
  assumes "orders \<noteq> []"
  shows "\<exists>ro g'. make_review i orders g = Inr (ro, g')"
proof -
  from choice_nonempty [OF assms, of g] obtain ord where ch: "choice orders g = Inr (ord, stl g)"
    by blast
  show ?thesis
  proof (cases "items ord = []")
    case True
    then show ?thesis using ch by (simp add: make_review_def)
  next
    case False
    from choice_nonempty [OF False, of "stl g"] obtain it
      where "choice (items ord) (stl g) = Inr (it, stl (stl g))" by blast
    then show ?thesis using ch False by (simp add: make_review_def split: prod.splits)
  qed
qed

lemma reviews_loop_total:
  assumes "orders \<noteq> []"
  shows "\<exists>revs g'. reviews_loop js orders acc g = Inr (revs, g')"
proof (induction js arbitrary: acc g)
  case Nil
  then show ?case by simp
next
  case (Cons j js)
  from make_review_total [OF assms, of j g] obtain ro g1
    where mr: "make_review j orders g = Inr (ro, g1)" by blast
  show ?case
  proof (cases ro)
    case None
    then show ?thesis using mr Cons.IH [of acc g1] by simp
  next
    case (Some r)
    then show ?thesis using mr Cons.IH [of "acc @ [r]" g1] by simp
  qed
qed

lemma reviews_loop_set:
  assumes "reviews_loop js orders acc g = Inr (revs, g')"
  shows "set revs \<subseteq> set acc \<union> {r. \<exists>i g1 g2. make_review i orders g1 = Inr (Some r, g2)}"
  using assms
proof (induction js arbitrary: acc g)
  case Nil
  then show ?case by simp
next
  case (Cons j js)
  from Cons.prems obtain ro g1 where mr: "make_review j orders g = Inr (ro, g1)"
    by (auto split: sum.splits)
  show ?case
  proof (cases ro)
    case None
    then have "reviews_loop js orders acc g1 = Inr (revs, g')" using Cons.prems mr by simp
    then show ?thesis by (rule Cons.IH)
  next
    case (Some r)
    then have step: "reviews_loop js orders (acc @ [r]) g1 = Inr (revs, g')"
      using Cons.prems mr by simp
    have "r \<in> {r. \<exists>i g1 g2. make_review i orders g1 = Inr (Some r, g2)}"
      using mr Some by blast
    then show ?thesis using Cons.IH [OF step] by auto
  qed
qed

lemma subseq_distinct:
  "subseq xs ys \<Longrightarrow> distinct ys \<Longrightarrow> distinct xs"
proof (induction rule: list_emb.induct)
  case (list_emb_Nil ys)
  then show ?case by simp
next
  case (list_emb_Cons xs ys y)
  then show ?case by simp
next
  case (list_emb_Cons2 x y xs ys)
  have "x \<notin> set xs"
  proof
    assume "x \<in> set xs"
    with list_emb_Cons2(2) have "x \<in> set ys" by (auto elim: list_emb_set)
    then show False using list_emb_Cons2 by simp
  qed
  then show ?case using list_emb_Cons2 by simp
qed

lemma reviews_loop_ids:
  assumes "reviews_loop js orders acc g = Inr (revs, g')"
  shows "\<exists>ks. subseq ks js
           \<and> map review_id revs = map review_id acc @ map (\<lambda>i. CHR ''R'' # format_0d 5 i) ks
           \<and> map review.id_field revs
               = map review.id_field acc @ map (\<lambda>i. CHR ''R'' # format_0d 5 i) ks
           \<and> ((\<forall>ord\<in>set orders. items ord \<noteq> []) \<longrightarrow> ks = js)"
  using assms
proof (induction js arbitrary: acc g)
  case Nil
  then show ?case by simp
next
  case (Cons j js)
  from Cons.prems obtain ro g1 where mr: "make_review j orders g = Inr (ro, g1)"
    by (auto split: sum.splits)
  show ?case
  proof (cases ro)
    case None
    then have step: "reviews_loop js orders acc g1 = Inr (revs, g')" using Cons.prems mr by simp
    from Cons.IH [OF step] obtain ks where ks: "subseq ks js"
      "map review_id revs = map review_id acc @ map (\<lambda>i. CHR ''R'' # format_0d 5 i) ks"
      "map review.id_field revs = map review.id_field acc @ map (\<lambda>i. CHR ''R'' # format_0d 5 i) ks"
      by blast
    have "\<exists>ord\<in>set orders. items ord = []" using mr None make_review_None by blast
    then have "(\<forall>ord\<in>set orders. items ord \<noteq> []) \<longrightarrow> ks = j # js" by blast
    moreover have "subseq ks (j # js)" using ks(1) by (rule list_emb_Cons)
    ultimately show ?thesis using ks(2,3) by blast
  next
    case (Some r)
    then have step: "reviews_loop js orders (acc @ [r]) g1 = Inr (revs, g')"
      using Cons.prems mr by simp
    from Cons.IH [OF step] obtain ks where ks: "subseq ks js"
      "map review_id revs = map review_id (acc @ [r]) @ map (\<lambda>i. CHR ''R'' # format_0d 5 i) ks"
      "map review.id_field revs
         = map review.id_field (acc @ [r]) @ map (\<lambda>i. CHR ''R'' # format_0d 5 i) ks"
      "(\<forall>ord\<in>set orders. items ord \<noteq> []) \<longrightarrow> ks = js"
      by blast
    have r: "review_id r = CHR ''R'' # format_0d 5 j" "review.id_field r = CHR ''R'' # format_0d 5 j"
      using mr Some make_review_Some by blast+
    have "subseq (j # ks) (j # js)" using ks(1) by simp
    moreover have "map review_id revs
        = map review_id acc @ map (\<lambda>i. CHR ''R'' # format_0d 5 i) (j # ks)"
      using ks(2) r by simp
    moreover have "map review.id_field revs
        = map review.id_field acc @ map (\<lambda>i. CHR ''R'' # format_0d 5 i) (j # ks)"
      using ks(3) r by simp
    moreover have "(\<forall>ord\<in>set orders. items ord \<noteq> []) \<longrightarrow> j # ks = j # js" using ks(4) by simp
    ultimately show ?thesis by blast
  qed
qed

text \<open>
  Claim C5. For a non-empty list of orders, \<^verbatim>\<open>generate_reviews\<close> returns, and every review
  it returns carries the \<^verbatim>\<open>order_id\<close> (and the \<^verbatim>\<open>customer_id\<close>) of an order of the list
  and the \<^verbatim>\<open>product_id\<close> of one of the items of that same order.
\<close>

theorem review_references_order_and_item:
  assumes "orders \<noteq> []"
  shows "\<exists>reviews g'. generate_reviews orders n g = Inr (reviews, g')
       \<and> (\<forall>r\<in>set reviews. \<exists>ord\<in>set orders.
             review.order_id r = order.order_id ord
             \<and> review.customer_id r = order.customer_id ord
             \<and> (\<exists>it\<in>set (items ord). review.product_id r = order_item.product_id it))"
proof -
  from reviews_loop_total [OF assms, of "[1..n]" "[]" g] obtain reviews g'
    where run: "reviews_loop [1..n] orders [] g = Inr (reviews, g')" by blast
  have "\<exists>ord\<in>set orders.
             review.order_id r = order.order_id ord
             \<and> review.customer_id r = order.customer_id ord
             \<and> (\<exists>it\<in>set (items ord). review.product_id r = order_item.product_id it)"
    if "r \<in> set reviews" for r
  proof -
    from reviews_loop_set [OF run] that obtain i g1 g2
      where "make_review i orders g1 = Inr (Some r, g2)" by auto
    then show ?thesis by (rule make_review_Some)
  qed
  then show ?thesis using run by (auto simp: generate_reviews_def)
qed

lemma sample_reviews_run:
  "generate_reviews sample_orders 2 (sconst 0) = Inr (sample_reviews, sconst 0)"
  by (simp add: sample_reviews_def sample_orders_def sample_orders_rng_def sample_products_eq
      sample_customers_eq sample_price generate_orders_def generate_reviews_def upto.simps
      make_order_def make_review_def choice_def randint_def
      uniform_def py_random_def Let_def items_loop_unfold py_round_def round_half_even_def)

lemma sample_orders_single: "sample_orders = [hd sample_orders]"
  by (simp add: sample_orders_def sample_orders_rng_def sample_products_eq
      sample_customers_eq sample_price generate_orders_def upto.simps
      make_order_def choice_def randint_def
      uniform_def py_random_def Let_def items_loop_unfold py_round_def round_half_even_def)

lemma sample_reviews_length: "length sample_reviews = 2"
  by (simp add: sample_reviews_def sample_orders_def sample_orders_rng_def sample_products_eq
      sample_customers_eq sample_price generate_orders_def generate_reviews_def upto.simps
      make_order_def make_review_def choice_def randint_def
      uniform_def py_random_def Let_def items_loop_unfold py_round_def round_half_even_def)

theorem review_references_order_and_item_witness:
  "sample_orders \<noteq> []
   \<and> generate_reviews sample_orders 2 (sconst 0) = Inr (sample_reviews, sconst 0)
   \<and> length sample_reviews = 2
   \<and> review.order_id (hd sample_reviews) = order.order_id (hd sample_orders)
   \<and> review.product_id (hd sample_reviews)
        \<in> order_item.product_id ` set (items (hd sample_orders))"
proof -
  have ne: "sample_orders \<noteq> []" by (rule sample_orders_values(1))
  from review_references_order_and_item [OF ne, of 2 "sconst 0"] obtain reviews g'
    where run: "generate_reviews sample_orders 2 (sconst 0) = Inr (reviews, g')"
      and ref: "\<forall>r\<in>set reviews. \<exists>ord\<in>set sample_orders.
             review.order_id r = order.order_id ord
             \<and> review.customer_id r = order.customer_id ord
             \<and> (\<exists>it\<in>set (items ord). review.product_id r = order_item.product_id it)"
    by blast
  have eq: "reviews = sample_reviews" using run sample_reviews_run by simp
  have "sample_reviews \<noteq> []" using sample_reviews_length by auto
  then have "hd sample_reviews \<in> set reviews" using eq by simp
  with ref obtain ord where ord: "ord \<in> set sample_orders"
    "review.order_id (hd sample_reviews) = order.order_id ord"
    "\<exists>it\<in>set (items ord). review.product_id (hd sample_reviews) = order_item.product_id it"
    by blast
  have "set sample_orders = {hd sample_orders}"
    using sample_orders_single by (metis list.simps(15) empty_set)
  then have "ord = hd sample_orders" using ord(1) by simp
  then show ?thesis using ne sample_reviews_run sample_reviews_length ord(2,3) by blast
qed

subsection \<open>Identifiers: uniqueness and format\<close>

lemma fixed_width_ids:
  assumes "set ks \<subseteq> {1..n}" "n < 10 ^ w" "0 < w"
  shows "list_all (fixed_width_id letter w) (map (\<lambda>i. letter # format_0d w i) ks)"
proof -
  have "fixed_width_id letter w (letter # format_0d w i)" if "i \<in> set ks" for i
  proof -
    have "0 \<le> i" "i < 10 ^ w" using that assms(1,2) by auto
    then show ?thesis using assms(3) by (rule format_0d_fixed_width)
  qed
  then show ?thesis by (simp add: list_all_iff)
qed

lemma subseq_set: "subseq xs ys \<Longrightarrow> set xs \<subseteq> set ys"
  by (auto elim: list_emb_set)

lemma product_ids:
  "map product.product_id (fst (generate_products n g))
     = map (\<lambda>i. CHR ''P'' # format_0d 4 i) [1..n]"
  "map product.id_field (fst (generate_products n g))
     = map (\<lambda>i. CHR ''P'' # format_0d 4 i) [1..n]"
  using products_loop_ids [of "[1..n]" "[]" g] by (simp_all add: generate_products_def)

lemma customer_ids:
  "map customer.customer_id (fst (generate_customers n g))
     = map (\<lambda>i. CHR ''C'' # format_0d 5 i) [1..n]"
  "map customer.id_field (fst (generate_customers n g))
     = map (\<lambda>i. CHR ''C'' # format_0d 5 i) [1..n]"
  using customers_loop_ids [of "[1..n]" "[]" g] by (simp_all add: generate_customers_def)

lemma order_ids:
  assumes "generate_orders cs ps n g = Inr (ords, g')"
  shows "map order.order_id ords = map (\<lambda>i. CHR ''O'' # format_0d 6 i) [1..n]"
    and "map order.id_field ords = map (\<lambda>i. CHR ''O'' # format_0d 6 i) [1..n]"
  using orders_loop_ids [of "[1..n]" cs ps "[]" g ords g'] assms
  by (simp_all add: generate_orders_def)

lemma review_ids:
  assumes "generate_reviews orders n g = Inr (revs, g')"
  shows "\<exists>ks. subseq ks [1..n]
           \<and> map review_id revs = map (\<lambda>i. CHR ''R'' # format_0d 5 i) ks
           \<and> map review.id_field revs = map (\<lambda>i. CHR ''R'' # format_0d 5 i) ks
           \<and> ((\<forall>ord\<in>set orders. items ord \<noteq> []) \<longrightarrow> ks = [1..n])"
  using reviews_loop_ids [of "[1..n]" orders "[]" g revs g'] assms
  by (simp add: generate_reviews_def)

text \<open>
  Claim C6, as amended. In each generated collection the identifiers are pairwise
  distinct and are the letter of the kind followed by the decimal index, padded with
  zeros to at least 4 (products), 5 (customers), 6 (orders) and 5 (reviews) digits.
  Products, customers and orders are numbered \<open>1, 2, \<dots>, n\<close>; a review carries the index
  of the iteration that produced it, so the reviews are numbered by a subsequence of
  \<open>1, \<dots>, n\<close>, which is all of it when every order has an item. The identifiers have the
  fixed width of their kind as long as the count stays below \<open>10 ^ 4\<close>, \<open>10 ^ 5\<close>,
  \<open>10 ^ 6\<close> and \<open>10 ^ 5\<close>: a larger index is printed with more digits.
\<close>

theorem generated_ids_distinct_and_formatted:
  "(map product.product_id (fst (generate_products np gp))
        = map (\<lambda>i. CHR ''P'' # format_0d 4 i) [1..np]
      \<and> map product.id_field (fst (generate_products np gp))
        = map product.product_id (fst (generate_products np gp))
      \<and> distinct (map product.product_id (fst (generate_products np gp)))
      \<and> (np < 10 ^ 4 \<longrightarrow> list_all (fixed_width_id CHR ''P'' 4)
            (map product.product_id (fst (generate_products np gp)))))
   \<and> (map customer.customer_id (fst (generate_customers nc gc))
        = map (\<lambda>i. CHR ''C'' # format_0d 5 i) [1..nc]
      \<and> map customer.id_field (fst (generate_customers nc gc))
        = map customer.customer_id (fst (generate_customers nc gc))
      \<and> distinct (map customer.customer_id (fst (generate_customers nc gc)))
      \<and> (nc < 10 ^ 5 \<longrightarrow> list_all (fixed_width_id CHR ''C'' 5)
            (map customer.customer_id (fst (generate_customers nc gc)))))
   \<and> (generate_orders cs ps no go = Inr (ords, go') \<longrightarrow>
        map order.order_id ords = map (\<lambda>i. CHR ''O'' # format_0d 6 i) [1..no]
      \<and> map order.id_field ords = map order.order_id ords
      \<and> distinct (map order.order_id ords)
      \<and> (no < 10 ^ 6 \<longrightarrow> list_all (fixed_width_id CHR ''O'' 6) (map order.order_id ords)))
   \<and> (generate_reviews orders nr gr = Inr (revs, gr') \<longrightarrow>
        (\<exists>ks. subseq ks [1..nr]
           \<and> map review_id revs = map (\<lambda>i. CHR ''R'' # format_0d 5 i) ks)
      \<and> ((\<forall>ord\<in>set orders. items ord \<noteq> [])
           \<longrightarrow> map review_id revs = map (\<lambda>i. CHR ''R'' # format_0d 5 i) [1..nr])
      \<and> map review.id_field revs = map review_id revs
      \<and> distinct (map review_id revs)
      \<and> (nr < 10 ^ 5 \<longrightarrow> list_all (fixed_width_id CHR ''R'' 5) (map review_id revs)))"
proof -
  have products: "map product.product_id (fst (generate_products np gp))
        = map (\<lambda>i. CHR ''P'' # format_0d 4 i) [1..np]
      \<and> map product.id_field (fst (generate_products np gp))
        = map product.product_id (fst (generate_products np gp))
      \<and> distinct (map product.product_id (fst (generate_products np gp)))
      \<and> (np < 10 ^ 4 \<longrightarrow> list_all (fixed_width_id CHR ''P'' 4)
            (map product.product_id (fst (generate_products np gp))))"
    unfolding product_ids using distinct_ids [of "CHR ''P''" 4 np]
      fixed_width_ids [of "[1..np]" np 4 "CHR ''P''"] by simp
  have customers: "map customer.customer_id (fst (generate_customers nc gc))
        = map (\<lambda>i. CHR ''C'' # format_0d 5 i) [1..nc]
      \<and> map customer.id_field (fst (generate_customers nc gc))
        = map customer.customer_id (fst (generate_customers nc gc))
      \<and> distinct (map customer.customer_id (fst (generate_customers nc gc)))
      \<and> (nc < 10 ^ 5 \<longrightarrow> list_all (fixed_width_id CHR ''C'' 5)
            (map customer.customer_id (fst (generate_customers nc gc))))"
    unfolding customer_ids using distinct_ids [of "CHR ''C''" 5 nc]
      fixed_width_ids [of "[1..nc]" nc 5 "CHR ''C''"] by simp
  have orders: "map order.order_id ords = map (\<lambda>i. CHR ''O'' # format_0d 6 i) [1..no]
      \<and> map order.id_field ords = map order.order_id ords
      \<and> distinct (map order.order_id ords)
      \<and> (no < 10 ^ 6 \<longrightarrow> list_all (fixed_width_id CHR ''O'' 6) (map order.order_id ords))"
    if run: "generate_orders cs ps no go = Inr (ords, go')"
    unfolding order_ids [OF run] using distinct_ids [of "CHR ''O''" 6 no]
      fixed_width_ids [of "[1..no]" no 6 "CHR ''O''"] by simp
  have reviews: "(\<exists>ks. subseq ks [1..nr]
           \<and> map review_id revs = map (\<lambda>i. CHR ''R'' # format_0d 5 i) ks)
      \<and> ((\<forall>ord\<in>set orders. items ord \<noteq> [])
           \<longrightarrow> map review_id revs = map (\<lambda>i. CHR ''R'' # format_0d 5 i) [1..nr])
      \<and> map review.id_field revs = map review_id revs
      \<and> distinct (map review_id revs)
      \<and> (nr < 10 ^ 5 \<longrightarrow> list_all (fixed_width_id CHR ''R'' 5) (map review_id revs))"
    if run: "generate_reviews orders nr gr = Inr (revs, gr')"
  proof -
    from review_ids [OF run] obtain ks where ks: "subseq ks [1..nr]"
      "map review_id revs = map (\<lambda>i. CHR ''R'' # format_0d 5 i) ks"
      "map review.id_field revs = map (\<lambda>i. CHR ''R'' # format_0d 5 i) ks"
      "(\<forall>ord\<in>set orders. items ord \<noteq> []) \<longrightarrow> ks = [1..nr]"
      by blast
    have "subseq (map (\<lambda>i. CHR ''R'' # format_0d 5 i) ks)
            (map (\<lambda>i. CHR ''R'' # format_0d 5 i) [1..nr])"
      using ks(1) by (rule subseq_map)
    then have d: "distinct (map review_id revs)"
      unfolding ks(2) using distinct_ids [of "CHR ''R''" 5 nr] by (rule subseq_distinct)
    have "set ks \<subseteq> {1..nr}" using subseq_set [OF ks(1)] by simp
    then have w: "nr < 10 ^ 5 \<longrightarrow> list_all (fixed_width_id CHR ''R'' 5) (map review_id revs)"
      unfolding ks(2) using fixed_width_ids [of ks nr 5 "CHR ''R''"] by simp
    show ?thesis using ks d w by auto
  qed
  show ?thesis using products customers orders reviews by blast
qed

lemma sample_formats:
  "map (\<lambda>i. CHR ''P'' # format_0d 4 i) [1..1] = [''P0001'']"
  "map (\<lambda>i. CHR ''C'' # format_0d 5 i) [1..1] = [''C00001'']"
  "map (\<lambda>i. CHR ''O'' # format_0d 6 i) [1..1] = [''O000001'']"
  "map (\<lambda>i. CHR ''R'' # format_0d 5 i) [1..2] = [''R00001'', ''R00002'']"
  "CHR ''P'' # format_0d 4 10000 = ''P10000''"
  by (simp_all add: upto.simps format_0d_def zfill_def digits10.simps digit_char_def
      replicate_unfold)

theorem generated_ids_distinct_and_formatted_witness:
  "(1::int) < 10 ^ 4 \<and> (1::int) < 10 ^ 5 \<and> (1::int) < 10 ^ 6 \<and> (2::int) < 10 ^ 5
   \<and> generate_orders sample_customers sample_products 1 sample_orders_rng
        = Inr (sample_orders, sconst 0)
   \<and> generate_reviews sample_orders 2 (sconst 0) = Inr (sample_reviews, sconst 0)
   \<and> sample_orders = [hd sample_orders] \<and> items (hd sample_orders) \<noteq> []
   \<and> map product.product_id sample_products = [''P0001'']
   \<and> list_all (fixed_width_id CHR ''P'' 4) (map product.product_id sample_products)
   \<and> map customer.customer_id sample_customers = [''C00001'']
   \<and> list_all (fixed_width_id CHR ''C'' 5) (map customer.customer_id sample_customers)
   \<and> map order.order_id sample_orders = [''O000001'']
   \<and> list_all (fixed_width_id CHR ''O'' 6) (map order.order_id sample_orders)
   \<and> map review_id sample_reviews = [''R00001'', ''R00002'']
   \<and> list_all (fixed_width_id CHR ''R'' 5) (map review_id sample_reviews)
   \<and> distinct (map review_id sample_reviews)"
proof -
  note t = generated_ids_distinct_and_formatted [of 1 "sconst 0" 1 "sconst 0"
      sample_customers sample_products 1 sample_orders_rng sample_orders "sconst 0"
      sample_orders 2 "sconst 0" sample_reviews "sconst 0",
      folded sample_products_def sample_customers_def]
  have b: "(1::int) < 10 ^ 4" "(1::int) < 10 ^ 5" "(1::int) < 10 ^ 6" "(2::int) < 10 ^ 5"
    by simp_all
  have i: "items (hd sample_orders) \<noteq> []" using sample_orders_values(2) by auto
  have "set sample_orders = {hd sample_orders}"
    using sample_orders_single by (metis list.simps(15) empty_set)
  then have all: "\<forall>ord\<in>set sample_orders. items ord \<noteq> []" using i by simp
  have p: "map product.product_id sample_products = map (\<lambda>i. CHR ''P'' # format_0d 4 i) [1..1]"
    "list_all (fixed_width_id CHR ''P'' 4) (map product.product_id sample_products)"
    using t b by blast+
  have c: "map customer.customer_id sample_customers = map (\<lambda>i. CHR ''C'' # format_0d 5 i) [1..1]"
    "list_all (fixed_width_id CHR ''C'' 5) (map customer.customer_id sample_customers)"
    using t b by blast+
  have o: "map order.order_id sample_orders = map (\<lambda>i. CHR ''O'' # format_0d 6 i) [1..1]"
    "list_all (fixed_width_id CHR ''O'' 6) (map order.order_id sample_orders)"
    using t b sample_orders_run by blast+
  have r: "map review_id sample_reviews = map (\<lambda>i. CHR ''R'' # format_0d 5 i) [1..2]"
    "list_all (fixed_width_id CHR ''R'' 5) (map review_id sample_reviews)"
    "distinct (map review_id sample_reviews)"
    using t b sample_reviews_run all by blast+
  show ?thesis
    using b sample_orders_run sample_reviews_run sample_orders_single i
      p [unfolded sample_formats] c [unfolded sample_formats] o [unfolded sample_formats]
      r [unfolded sample_formats]
    by blast
qed

text \<open>
  The ten-thousandth product has the identifier \<^verbatim>\<open>P10000\<close>: five digits, not four.
\<close>

theorem product_id_width_counterexample:
  "product.product_id (fst (generate_products 10000 (sconst 0)) ! 9999) = ''P10000''
   \<and> \<not> fixed_width_id CHR ''P'' 4 (product.product_id (fst (generate_products 10000 (sconst 0)) ! 9999))"
proof -
  have len: "length (fst (generate_products 10000 (sconst 0))) = 10000"
    by (simp add: generate_products_closed)
  have "fst (generate_products 10000 (sconst 0)) ! 9999
      = fst (make_product (int 9999 + 1) (sdrop (8 * 9999) (sconst 0)))"
    unfolding generate_products_closed fst_conv
    by (rule trans [OF nth_map]) (simp_all del: upt_rec_numeral upt.simps)
  then have "product.product_id (fst (generate_products 10000 (sconst 0)) ! 9999)
      = CHR ''P'' # format_0d 4 10000"
    by (simp only: make_product_id) simp
  then have id: "product.product_id (fst (generate_products 10000 (sconst 0)) ! 9999) = ''P10000''"
    unfolding sample_formats .
  show ?thesis unfolding id by (simp add: fixed_width_id_def)
qed

section \<open>Properties of the uploader\<close>

subsection \<open>The skip gate\<close>

text \<open>
  Claim C4. For each collection, when the force flag is off and the count of existing
  documents is at least \<^verbatim>\<open>MIN_DOCS_PER_COLLECTION\<close>, the upload block returns without any
  call that writes: the world (the store, the random source and the trace of write calls
  and sleeps) is the one it started from.
\<close>

theorem skip_when_populated:
  assumes "\<not> FORCE_UPLOAD cfg"
    and "count_documents ops c (store w) = Inr count"
    and "MIN_DOCS_PER_COLLECTION cfg \<le> count"
  shows "upload_collection ops cfg c data w = Some (Inr None, w)"
  using assms by (simp add: upload_collection_def)

theorem skip_when_populated_witness:
  "\<not> FORCE_UPLOAD module_config
   \<and> count_documents memory_store Products (store populated_world) = Inr 50
   \<and> MIN_DOCS_PER_COLLECTION module_config \<le> 50
   \<and> upload_collection memory_store module_config Products sample_docs populated_world
        = Some (Inr None, populated_world)"
proof -
  have a: "\<not> FORCE_UPLOAD module_config" by (simp add: module_config_def)
  have b: "count_documents memory_store Products (store populated_world) = Inr 50"
    by (simp add: memory_store_def populated_world_def)
  have c: "MIN_DOCS_PER_COLLECTION module_config \<le> 50" by (simp add: module_config_def)
  show ?thesis using a b c skip_when_populated [OF a b c] by simp
qed

lemma length_sample_docs: "length sample_docs = 50"
  by (simp add: sample_docs_def generate_products_closed)

subsection \<open>The size of a batch\<close>

text \<open>
  Claim C9 says that every bulk write holds at most \<^verbatim>\<open>BATCH_SIZE\<close> documents. The code
  does otherwise: \<^verbatim>\<open>BATCH_SIZE\<close> is 5, but \<^verbatim>\<open>insert_in_batches\<close> is called without its
  \<^verbatim>\<open>batch_size\<close> argument, whose default is 10, and the constant is never read. The
  upload of the fifty generated products into an empty collection issues five bulk writes
  of ten documents each.
\<close>

theorem batch_size_constant_ignored:
  "BATCH_SIZE module_config = 5
   \<and> length sample_docs = 50
   \<and> (\<exists>w'. upload_collection memory_store module_config Products sample_docs empty_world
            = Some (Inr (Some 50), w')
          \<and> trace w'
            = [BulkWrite Products (take 10 (drop 0 sample_docs)), Sleep 2,
               BulkWrite Products (take 10 (drop 10 sample_docs)), Sleep 2,
               BulkWrite Products (take 10 (drop 20 sample_docs)), Sleep 2,
               BulkWrite Products (take 10 (drop 30 sample_docs)), Sleep 2,
               BulkWrite Products (take 10 (drop 40 sample_docs)), Sleep 2])
   \<and> length (take 10 (drop 0 sample_docs)) = 10"
  by (simp add: upload_collection_def module_config_def memory_store_def empty_world_def
      length_sample_docs insert_in_batches_def default_batch_size_def batches_loop.simps
      write_batch.simps max_retries_def)

subsection \<open>Retries of a rate-limited batch\<close>

lemma retry_from:
  assumes limited: "\<forall>s. \<exists>msg s'. bulk_write ops c batch s = (Inl (PyMongoError msg), s')
                          \<and> rate_limited msg"
  shows "a \<le> max_retries \<Longrightarrow>
         \<exists>w' js. length js = Suc max_retries - a
           \<and> (\<forall>j\<in>set js. 0 \<le> j \<and> j < 1 / 2)
           \<and> write_batch ops cfg c batch a inserted w = (Inr inserted, w')
           \<and> trace w' = trace w @ concat (map (\<lambda>(k, j). [BulkWrite c batch,
                               Sleep (2 ^ k * BATCH_DELAY cfg + j)])
                             (zip [a..<Suc max_retries] js))"
proof (induction "max_retries - a" arbitrary: a w)
  case 0
  then have a: "a = max_retries" by simp
  from limited obtain msg s' where bw: "bulk_write ops c batch (store w) = (Inl (PyMongoError msg), s')"
    and rl: "rate_limited msg" by blast
  obtain u g' where pr: "py_random (rng_state w) = (u, g')" by fastforce
  have u: "0 \<le> u" "u < 1" using py_random_range [of "rng_state w"] pr by simp_all
  define w' where "w' = w\<lparr>store := s', rng_state := g',
      trace := trace w @ [BulkWrite c batch, Sleep (2 ^ a * BATCH_DELAY cfg + u * (1 / 2))]\<rparr>"
  have run: "write_batch ops cfg c batch a inserted w = (Inr inserted, w')"
    by (subst write_batch.simps) (simp add: bw rl pr a w'_def Let_def)
  have "length [u * (1 / 2)] = Suc max_retries - a" using a by simp
  moreover have "\<forall>j\<in>set [u * (1 / 2)]. 0 \<le> j \<and> j < 1 / 2" using u by simp
  moreover have "trace w' = trace w @ concat (map (\<lambda>(k, j). [BulkWrite c batch,
                               Sleep (2 ^ k * BATCH_DELAY cfg + j)])
                             (zip [a..<Suc max_retries] [u * (1 / 2)]))"
    using a by (simp add: w'_def)
  ultimately show ?case using run by blast
next
  case (Suc n)
  then have a: "a < max_retries" "n = max_retries - Suc a" "Suc a \<le> max_retries" by simp_all
  from limited obtain msg s' where bw: "bulk_write ops c batch (store w) = (Inl (PyMongoError msg), s')"
    and rl: "rate_limited msg" by blast
  obtain u g' where pr: "py_random (rng_state w) = (u, g')" by fastforce
  have u: "0 \<le> u" "u < 1" using py_random_range [of "rng_state w"] pr by simp_all
  define w1 where "w1 = w\<lparr>store := s', rng_state := g',
      trace := trace w @ [BulkWrite c batch, Sleep (2 ^ a * BATCH_DELAY cfg + u * (1 / 2))]\<rparr>"
  have step: "write_batch ops cfg c batch a inserted w = write_batch ops cfg c batch (Suc a) inserted w1"
    by (subst write_batch.simps) (use a in \<open>simp add: bw rl pr w1_def Let_def\<close>)
  from Suc.hyps(1) [OF a(2) a(3), of w1] obtain w' js where
    js: "length js = Suc max_retries - Suc a" "\<forall>j\<in>set js. 0 \<le> j \<and> j < 1 / 2"
    and run: "write_batch ops cfg c batch (Suc a) inserted w1 = (Inr inserted, w')"
    and tr: "trace w' = trace w1 @ concat (map (\<lambda>(k, j). [BulkWrite c batch,
                               Sleep (2 ^ k * BATCH_DELAY cfg + j)])
                             (zip [Suc a..<Suc max_retries] js))"
    by blast
  have upt: "[a..<Suc max_retries] = a # [Suc a..<Suc max_retries]"
    using a by (simp add: upt_conv_Cons)
  have "length (u * (1 / 2) # js) = Suc max_retries - a" using js(1) a by simp
  moreover have "\<forall>j\<in>set (u * (1 / 2) # js). 0 \<le> j \<and> j < 1 / 2" using js(2) u by simp
  moreover have "trace w' = trace w @ concat (map (\<lambda>(k, j). [BulkWrite c batch,
                               Sleep (2 ^ k * BATCH_DELAY cfg + j)])
                             (zip [a..<Suc max_retries] (u * (1 / 2) # js)))"
    unfolding tr upt by (simp add: w1_def)
  ultimately show ?case using run step by (metis (no_types, lifting))
qed

text \<open>
  Claim C3. When every bulk write of a batch fails with a rate-limit error, the loop makes
  \<open>max_retries + 1 = 6\<close> attempts (the first one and five retries), each followed by a
  sleep of \<^verbatim>\<open>2 ** attempt * BATCH_DELAY\<close> plus a jitter in \<open>[0, 0.5)\<close>, so that the \<open>k\<close>-th
  retry comes after a backoff of \<open>BATCH_DELAY * 2 ^ k\<close> plus jitter. The batch is then
  abandoned: \<^verbatim>\<open>inserted\<close> is unchanged, nothing was written one document at a time, and
  \<^verbatim>\<open>insert_in_batches\<close> goes on with the next batch.
\<close>

theorem rate_limited_batch_retried_then_abandoned:
  assumes "\<forall>s. \<exists>msg s'. bulk_write ops c (take batch_size (drop i data)) s
                    = (Inl (PyMongoError msg), s') \<and> rate_limited msg"
    and "0 < batch_size" and "i < length data"
  shows "max_retries = 5
       \<and> (\<exists>w' js. length js = max_retries + 1
             \<and> (\<forall>j\<in>set js. 0 \<le> j \<and> j < 1 / 2)
             \<and> write_batch ops cfg c (take batch_size (drop i data)) 0 inserted w
                  = (Inr inserted, w')
             \<and> trace w' = trace w @ concat (map (\<lambda>(k, j).
                    [BulkWrite c (take batch_size (drop i data)),
                     Sleep (2 ^ k * BATCH_DELAY cfg + j)])
                  (zip [0..<max_retries + 1] js))
             \<and> batches_loop ops cfg c data batch_size i inserted w
                  = batches_loop ops cfg c data batch_size (i + batch_size) inserted w')"
proof -
  from retry_from [OF assms(1), of 0 cfg inserted w] obtain w' js where
    js: "length js = Suc max_retries - 0" "\<forall>j\<in>set js. 0 \<le> j \<and> j < 1 / 2"
    and run: "write_batch ops cfg c (take batch_size (drop i data)) 0 inserted w = (Inr inserted, w')"
    and tr: "trace w' = trace w @ concat (map (\<lambda>(k, j).
                    [BulkWrite c (take batch_size (drop i data)),
                     Sleep (2 ^ k * BATCH_DELAY cfg + j)])
                  (zip [0..<Suc max_retries] js))"
    by blast
  have next_batch: "batches_loop ops cfg c data batch_size i inserted w
      = batches_loop ops cfg c data batch_size (i + batch_size) inserted w'"
    using assms(2,3) run by (simp add: batches_loop.simps [of ops cfg c data batch_size i])
  have "length js = max_retries + 1" using js(1) by simp
  moreover have "trace w' = trace w @ concat (map (\<lambda>(k, j).
                    [BulkWrite c (take batch_size (drop i data)),
                     Sleep (2 ^ k * BATCH_DELAY cfg + j)])
                  (zip [0..<max_retries + 1] js))"
    using tr by simp
  ultimately show ?thesis using js(2) run next_batch by (auto simp: max_retries_def)
qed

lemma throttled_always_limited:
  "\<forall>s. \<exists>msg s'. bulk_write throttled_store c batch s = (Inl (PyMongoError msg), s')
     \<and> rate_limited msg"
  by (simp add: throttled_store_def memory_store_def rate_limited_def sublist_code)

lemma throttled_trace:
  "trace (snd (write_batch throttled_store module_config Products (take 10 (drop 0 sample_docs))
      0 0 empty_world))
   = [BulkWrite Products (take 10 (drop 0 sample_docs)), Sleep 2,
      BulkWrite Products (take 10 (drop 0 sample_docs)), Sleep 4,
      BulkWrite Products (take 10 (drop 0 sample_docs)), Sleep 8,
      BulkWrite Products (take 10 (drop 0 sample_docs)), Sleep 16,
      BulkWrite Products (take 10 (drop 0 sample_docs)), Sleep 32,
      BulkWrite Products (take 10 (drop 0 sample_docs)), Sleep 64]"
  by (simp add: write_batch.simps throttled_store_def memory_store_def rate_limited_def
      sublist_code module_config_def empty_world_def max_retries_def py_random_def Let_def)

theorem rate_limited_batch_retried_then_abandoned_witness:
  "rate_limited ''Request rate is large: TooManyRequests (429)''
   \<and> (0::nat) < 10 \<and> 0 < length sample_docs
   \<and> fst (write_batch throttled_store module_config Products (take 10 (drop 0 sample_docs))
        0 0 empty_world) = Inr 0
   \<and> trace (snd (write_batch throttled_store module_config Products
        (take 10 (drop 0 sample_docs)) 0 0 empty_world))
      = [BulkWrite Products (take 10 (drop 0 sample_docs)), Sleep 2,
         BulkWrite Products (take 10 (drop 0 sample_docs)), Sleep 4,
         BulkWrite Products (take 10 (drop 0 sample_docs)), Sleep 8,
         BulkWrite Products (take 10 (drop 0 sample_docs)), Sleep 16,
         BulkWrite Products (take 10 (drop 0 sample_docs)), Sleep 32,
         BulkWrite Products (take 10 (drop 0 sample_docs)), Sleep 64]
   \<and> batches_loop throttled_store module_config Products sample_docs 10 0 0 empty_world
      = batches_loop throttled_store module_config Products sample_docs 10 (0 + 10) 0
          (snd (write_batch throttled_store module_config Products
             (take 10 (drop 0 sample_docs)) 0 0 empty_world))"
proof -
  have r: "rate_limited ''Request rate is large: TooManyRequests (429)''"
    by (simp add: rate_limited_def sublist_code)
  have b: "(0::nat) < 10" by simp
  have l: "0 < length sample_docs" by (simp add: length_sample_docs)
  from rate_limited_batch_retried_then_abandoned
    [OF throttled_always_limited b l,
      where cfg = module_config and inserted = 0 and w = empty_world]
  obtain w' where
    run: "write_batch throttled_store module_config Products (take 10 (drop 0 sample_docs))
        0 0 empty_world = (Inr 0, w')"
    and nxt: "batches_loop throttled_store module_config Products sample_docs 10 0 0 empty_world
      = batches_loop throttled_store module_config Products sample_docs 10 (0 + 10) 0 w'"
    by blast
  have f: "fst (write_batch throttled_store module_config Products (take 10 (drop 0 sample_docs))
        0 0 empty_world) = Inr 0" using run by simp
  have s: "snd (write_batch throttled_store module_config Products (take 10 (drop 0 sample_docs))
        0 0 empty_world) = w'" using run by simp
  show ?thesis using r b l f throttled_trace nxt unfolding s by blast
qed

section \<open>Properties of the dashboard queries\<close>

lemma DataFrame_Nil: "DataFrame [] = empty_frame"
  by (simp add: DataFrame_def empty_frame_def)

lemma try_except_empty_returns:
  "\<exists>df msgs. try_except_empty body label = (Inr df, msgs)"
  by (cases body) (auto simp: try_except_empty_def split: sum.splits)

lemma load_body_cases:
  "connect env = Inr cl \<Longrightarrow> find_all env c = Inr data
     \<Longrightarrow> load_body env c = (Inr (DataFrame data), [])"
  "connect env = Inr cl \<Longrightarrow> find_all env c = Inl e \<Longrightarrow> load_body env c = (Inl e, [])"
  "connect env = Inl e
     \<Longrightarrow> load_body env c
           = (Inr empty_frame, [''Failed to connect to Azure Cosmos DB: '' @ exception_str e])"
  by (simp_all add: load_body_def init_connection_def)

lemma aggregate_body_cases:
  "connect env = Inr cl \<Longrightarrow> aggregate env c pl = Inr []
     \<Longrightarrow> aggregate_body env c pl names = (Inr empty_frame, [])"
  "connect env = Inr cl \<Longrightarrow> aggregate env c pl = Inl e
     \<Longrightarrow> aggregate_body env c pl names = (Inl e, [])"
  "connect env = Inl e
     \<Longrightarrow> aggregate_body env c pl names
           = (Inr empty_frame, [''Failed to connect to Azure Cosmos DB: '' @ exception_str e])"
  by (simp_all add: aggregate_body_def init_connection_def)

lemmas query_defs =
  load_products_def load_customers_def load_orders_def load_reviews_def
  get_category_stats_def get_sales_by_state_def get_top_products_def

text \<open>
  Claim C7. Each of the seven query functions returns a data frame and never raises.
  With a working connection, an empty result of its database call gives the empty data
  frame and no message; an exception of its database call gives the empty data frame and
  one error message, made of the label of the function and the text of the exception.
  Without a connection the result is the empty data frame too, with the message of
  \<^verbatim>\<open>init_connection\<close>.
\<close>

theorem query_returns_empty_instead_of_raising:
  "(\<exists>df msgs. run_query q env = (Inr df, msgs))
   \<and> (connect env = Inr cl \<and> source_call q env = Inr []
        \<longrightarrow> run_query q env = (Inr empty_frame, []))
   \<and> (connect env = Inr cl \<and> source_call q env = Inl e
        \<longrightarrow> run_query q env = (Inr empty_frame, [error_label q @ exception_str e]))
   \<and> (connect env = Inl e'
        \<longrightarrow> run_query q env
             = (Inr empty_frame, [''Failed to connect to Azure Cosmos DB: '' @ exception_str e']))"
proof -
  have a: "\<exists>df msgs. run_query q env = (Inr df, msgs)"
    by (cases q) (simp_all add: query_defs try_except_empty_returns)
  have b: "run_query q env = (Inr empty_frame, [])"
    if "connect env = Inr cl" "source_call q env = Inr []"
    using that
    by (cases q)
       (simp_all add: query_defs load_body_cases aggregate_body_cases DataFrame_Nil
          try_except_empty_def)
  have c: "run_query q env = (Inr empty_frame, [error_label q @ exception_str e])"
    if "connect env = Inr cl" "source_call q env = Inl e"
    using that
    by (cases q)
       (simp_all add: query_defs load_body_cases aggregate_body_cases try_except_empty_def)
  have d: "run_query q env
        = (Inr empty_frame, [''Failed to connect to Azure Cosmos DB: '' @ exception_str e'])"
    if "connect env = Inl e'"
    using that
    by (cases q)
       (simp_all add: query_defs load_body_cases aggregate_body_cases try_except_empty_def)
  show ?thesis using a b c d by blast
qed

theorem query_returns_empty_instead_of_raising_witness:
  "connect empty_db = Inr MongoClient \<and> source_call GetTopProducts empty_db = Inr []
   \<and> run_query GetTopProducts empty_db = (Inr empty_frame, [])
   \<and> connect failing_db = Inr MongoClient
   \<and> source_call LoadOrders failing_db = Inl (PyMongoError ''cursor failed'')
   \<and> run_query LoadOrders failing_db
        = (Inr empty_frame, [''Error loading orders: cursor failed''])
   \<and> connect unreachable_db = Inl (PyMongoError ''timed out'')
   \<and> run_query GetCategoryStats unreachable_db
        = (Inr empty_frame, [''Failed to connect to Azure Cosmos DB: timed out''])"
proof -
  have a: "connect empty_db = Inr MongoClient" "source_call GetTopProducts empty_db = Inr []"
    by (simp_all add: empty_db_def)
  have b: "connect failing_db = Inr MongoClient"
    "source_call LoadOrders failing_db = Inl (PyMongoError ''cursor failed'')"
    by (simp_all add: failing_db_def)
  have c: "connect unreachable_db = Inl (PyMongoError ''timed out'')"
    by (simp add: unreachable_db_def)
  have "run_query GetTopProducts empty_db = (Inr empty_frame, [])"
    using query_returns_empty_instead_of_raising
      [where q = GetTopProducts and env = empty_db and cl = MongoClient] a by blast
  moreover have "run_query LoadOrders failing_db
        = (Inr empty_frame, [error_label LoadOrders @ exception_str (PyMongoError ''cursor failed'')])"
    using query_returns_empty_instead_of_raising
      [where q = LoadOrders and env = failing_db and cl = MongoClient
        and e = "PyMongoError ''cursor failed''"] b by blast
  moreover have "run_query GetCategoryStats unreachable_db
        = (Inr empty_frame, [''Failed to connect to Azure Cosmos DB: ''
             @ exception_str (PyMongoError ''timed out'')])"
    using query_returns_empty_instead_of_raising
      [where q = GetCategoryStats and env = unreachable_db
        and e' = "PyMongoError ''timed out''"] c
    by blast
  ultimately show ?thesis using a b c by simp
qed

end
